theory Spec2Isabelle
  imports Complex_Main "HOL-Library.Word"
begin

section \<open>Data model of \<open>center_optimizer.cpp\<close>\<close>

text \<open>
  A \<open>double\<close> is a number or NaN. The values the program reads into its points and its
  configuration (coordinates, weights, slopes, the minimum separation) are numbers. A
  distance can be NaN: as an entry of the distance table (\<open>std::stod\<close> reads the text
  \<open>nan\<close>), and as the result of \<open>haversine_distance\<close>, which takes the square root of a
  value that rounding can make negative. An infinity compares like a number beyond
  \<open>DBL_MAX\<close> and is represented by one. \<open>int\<close> identifiers are mathematical integers, \<open>k\<close>
  is a 32-bit word read as a signed value, and indices into \<open>points\<close> are natural numbers.
\<close>

datatype double = Fin real | NaN

fun dlt :: "double \<Rightarrow> double \<Rightarrow> bool" where
  \<comment> \<open>the operator \<open><\<close> of \<open>double\<close>: false when an operand is NaN\<close>
  "dlt (Fin x) (Fin y) = (x < y)"
| "dlt _ _ = False"


text \<open>
  The arithmetic of \<open>double\<close> rounds, and the C library's functions are only close to the
  mathematical ones. The operations are therefore a parameter: a record of functions on the
  reals, about which nothing is assumed. \<open>M_PI\<close> is the constant of \<open>cmath\<close>.
\<close>

record arith =
  f_add :: "real \<Rightarrow> real \<Rightarrow> real"
  f_sub :: "real \<Rightarrow> real \<Rightarrow> real"
  f_mul :: "real \<Rightarrow> real \<Rightarrow> real"
  f_div :: "real \<Rightarrow> real \<Rightarrow> real"
  f_sin :: "real \<Rightarrow> real"
  f_cos :: "real \<Rightarrow> real"
  f_sqrt :: "real \<Rightarrow> real"
  f_atan2 :: "real \<Rightarrow> real \<Rightarrow> real"
  M_PI :: real

record Point =
  id_p :: int
  lat :: real
  lon :: real
  resource_quantity :: real
  land_type :: string
  slope :: real
  elevation :: real

definition Point0 :: Point where
  \<comment> \<open>the default constructor \<open>Point()\<close>\<close>
  "Point0 = \<lparr>id_p = 0, lat = 0, lon = 0, resource_quantity = 0, land_type = [],
     slope = 0, elevation = 0\<rparr>"

record 'g KMedoidsOptimizer =
  points :: "Point list"
  distance_matrix :: "string \<rightharpoonup> (string \<rightharpoonup> double)"
  valid_candidates :: "nat list"
  k :: "32 word"
  min_distance_km :: real
  exclude_land_types :: "string set"
  max_slope :: real
  rng :: 'g

text \<open>What the program writes to standard output, one value per line written.\<close>

datatype msg =
    Valid_candidates nat
  | Not_enough nat int
  | Cannot_find int
  | Initial_cost real
  | Iteration nat real
  | Converged nat

definition DBL_MAX :: real where
  \<comment> \<open>\<open>std::numeric_limits<double>::max()\<close>\<close>
  "DBL_MAX = 2 ^ 1024 - 2 ^ 971"

section \<open>Library functions the source calls\<close>

definition digit_char :: "nat \<Rightarrow> char" where
  "digit_char d = ''0123456789'' ! d"

function nat_to_string :: "nat \<Rightarrow> string" where
  "nat_to_string n =
     (if n < 10 then [digit_char n] else nat_to_string (n div 10) @ [digit_char (n mod 10)])"
  by pat_completeness auto
termination
  by (relation "measure (\<lambda>n. n)") auto

declare nat_to_string.simps [simp del]

definition to_string :: "int \<Rightarrow> string" where
  \<comment> \<open>\<open>std::to_string(int)\<close>: decimal digits, a leading minus sign for negative values\<close>
  "to_string i = (if i < 0 then CHR ''-'' # nat_to_string (nat (- i)) else nat_to_string (nat i))"

definition atan2 :: "real \<Rightarrow> real \<Rightarrow> real" where
  \<comment> \<open>the mathematical function that \<open>atan2(y, x)\<close> of the C library approximates\<close>
  "atan2 y x =
     (if 0 < x then arctan (y / x)
      else if x < 0 then (if 0 \<le> y then arctan (y / x) + pi else arctan (y / x) - pi)
      else if 0 < y then pi / 2
      else if y < 0 then - (pi / 2)
      else 0)"

definition exact :: arith where
  \<comment> \<open>the arithmetic that does not round\<close>
  "exact = \<lparr>f_add = (+), f_sub = (-), f_mul = (*), f_div = (/), f_sin = sin, f_cos = cos,
     f_sqrt = sqrt, f_atan2 = atan2, M_PI = pi\<rparr>"

definition d_sqrt :: "arith \<Rightarrow> real \<Rightarrow> double" where
  \<comment> \<open>\<open>sqrt\<close>: NaN for a negative argument\<close>
  "d_sqrt ar x = (if x < 0 then NaN else Fin (f_sqrt ar x))"

definition std_min :: "real \<Rightarrow> double \<Rightarrow> real" where
  \<comment> \<open>\<open>std::min(a, b)\<close> is \<open>(b < a) ? b : a\<close>: it returns \<open>a\<close> when \<open>b\<close> is NaN\<close>
  "std_min a b = (case b of Fin y \<Rightarrow> if y < a then y else a | NaN \<Rightarrow> a)"

section \<open>The distance oracle\<close>

definition haversine_a :: "arith \<Rightarrow> real \<Rightarrow> real \<Rightarrow> real \<Rightarrow> real \<Rightarrow> real" where
  \<comment> \<open>the variable \<open>a\<close> of \<open>haversine_distance\<close>\<close>
  "haversine_a ar lat1 lon1 lat2 lon2 =
     (let dlat = f_div ar (f_mul ar (f_sub ar lat2 lat1) (M_PI ar)) 180;
          dlon = f_div ar (f_mul ar (f_sub ar lon2 lon1) (M_PI ar)) 180
      in f_add ar
           (f_mul ar (f_sin ar (f_div ar dlat 2)) (f_sin ar (f_div ar dlat 2)))
           (f_mul ar
              (f_mul ar
                 (f_mul ar (f_cos ar (f_div ar (f_mul ar lat1 (M_PI ar)) 180))
                           (f_cos ar (f_div ar (f_mul ar lat2 (M_PI ar)) 180)))
                 (f_sin ar (f_div ar dlon 2)))
              (f_sin ar (f_div ar dlon 2))))"

definition haversine_distance :: "arith \<Rightarrow> real \<Rightarrow> real \<Rightarrow> real \<Rightarrow> real \<Rightarrow> double" where
  \<comment> \<open>a NaN from either square root goes through \<open>atan2\<close> and both products\<close>
  "haversine_distance ar lat1 lon1 lat2 lon2 =
     (let R = 6371000;
          a = haversine_a ar lat1 lon1 lat2 lon2
      in case (d_sqrt ar a, d_sqrt ar (f_sub ar 1 a)) of
           (Fin y, Fin x) \<Rightarrow> Fin (f_mul ar R (f_mul ar 2 (f_atan2 ar y x)))
         | _ \<Rightarrow> NaN)"

definition scan_step :: "int \<Rightarrow> int \<Rightarrow> Point \<Rightarrow> Point \<times> Point \<Rightarrow> Point \<times> Point" where
  \<comment> \<open>the body of the scan of \<open>get_distance\<close>, on \<open>(from_point, to_point)\<close>\<close>
  "scan_step from_id to_id p acc =
     (let (from_point, to_point) = acc
      in (if id_p p = from_id then p else from_point,
          if id_p p = to_id then p else to_point))"

definition find_points :: "Point list \<Rightarrow> int \<Rightarrow> int \<Rightarrow> Point \<times> Point" where
  \<comment> \<open>the scan itself: no \<open>break\<close>, so the last point with a matching id stays\<close>
  "find_points ps from_id to_id = fold (scan_step from_id to_id) ps (Point0, Point0)"

definition table_entry :: "'g KMedoidsOptimizer \<Rightarrow> string \<Rightarrow> string \<Rightarrow> double option" where
  \<comment> \<open>both \<open>find\<close> tests of \<open>get_distance\<close>, and the entry when both succeed\<close>
  "table_entry opt from_key to_key =
     (case distance_matrix opt from_key of
        None \<Rightarrow> None
      | Some row \<Rightarrow> row to_key)"

definition get_distance :: "arith \<Rightarrow> 'g KMedoidsOptimizer \<Rightarrow> int \<Rightarrow> int \<Rightarrow> double" where
  "get_distance ar opt from_id to_id =
     (let from_key = to_string from_id; to_key = to_string to_id in
      case table_entry opt from_key to_key of
        Some d \<Rightarrow> d
      | None \<Rightarrow>
          (let (from_point, to_point) = find_points (points opt) from_id to_id
           in haversine_distance ar (lat from_point) (lon from_point)
                (lat to_point) (lon to_point)))"

section \<open>Filtering, feasibility, cost and assignment\<close>

definition filter_candidates :: "'g KMedoidsOptimizer \<Rightarrow> 'g KMedoidsOptimizer" where
  \<comment> \<open>the line it prints is recorded by \<open>optimize\<close>\<close>
  "filter_candidates opt =
     opt\<lparr>valid_candidates :=
           filter (\<lambda>i. land_type (points opt ! i) \<notin> exclude_land_types opt
                        \<and> \<not> max_slope opt < slope (points opt ! i))
                  [0..<length (points opt)]\<rparr>"

definition min_separation :: "arith \<Rightarrow> 'g KMedoidsOptimizer \<Rightarrow> real" where
  \<comment> \<open>the expression \<open>min_distance_km * 1000\<close> of both separation tests\<close>
  "min_separation ar opt = f_mul ar (min_distance_km opt) 1000"

definition satisfies_min_distance ::
  "arith \<Rightarrow> 'g KMedoidsOptimizer \<Rightarrow> nat list \<Rightarrow> nat \<Rightarrow> bool" where
  "satisfies_min_distance ar opt medoids new_candidate =
     list_all (\<lambda>medoid_idx.
                 \<not> dlt (get_distance ar opt (id_p (points opt ! new_candidate))
                                            (id_p (points opt ! medoid_idx)))
                       (Fin (min_separation ar opt)))
              medoids"

text \<open>
  \<open>min_dist\<close> starts at \<open>DBL_MAX\<close> and is replaced only by a distance that compared below
  it, so it is never NaN; the weights are numbers. Hence the costs are numbers, computed
  with the operations of \<open>ar\<close>.
\<close>

definition nearest_dist :: "arith \<Rightarrow> 'g KMedoidsOptimizer \<Rightarrow> nat list \<Rightarrow> nat \<Rightarrow> real" where
  \<comment> \<open>the inner loop of \<open>calculate_total_cost\<close> for the point at index \<open>i\<close>\<close>
  "nearest_dist ar opt medoids i =
     fold (\<lambda>medoid_idx min_dist.
             std_min min_dist
               (get_distance ar opt (id_p (points opt ! i)) (id_p (points opt ! medoid_idx))))
          medoids DBL_MAX"

definition calculate_total_cost :: "arith \<Rightarrow> 'g KMedoidsOptimizer \<Rightarrow> nat list \<Rightarrow> real" where
  "calculate_total_cost ar opt medoids =
     fold (\<lambda>i total_cost.
             f_add ar total_cost
               (f_mul ar (nearest_dist ar opt medoids i) (resource_quantity (points opt ! i))))
          [0..<length (points opt)] 0"




section \<open>Initialisation\<close>

text \<open>
  The generator \<open>std::mt19937\<close> and \<open>std::uniform_int_distribution<int>\<close> belong to the C++
  library. They are a parameter \<open>draw\<close>: \<open>draw g hi\<close> is the value drawn from \<open>0..hi\<close> and
  the generator after the draw.
\<close>

type_synonym 'g draw = "'g \<Rightarrow> nat \<Rightarrow> nat \<times> 'g"

definition draw_in_range :: "'g draw \<Rightarrow> bool" where
  "draw_in_range draw = (\<forall>g hi. fst (draw g hi) \<le> hi)"

definition valid_next_of :: "arith \<Rightarrow> 'g KMedoidsOptimizer \<Rightarrow> nat list \<Rightarrow> nat list" where
  "valid_next_of ar opt medoids =
     filter (\<lambda>candidate_idx. candidate_idx \<notin> set medoids
                               \<and> satisfies_min_distance ar opt medoids candidate_idx)
            (valid_candidates opt)"

function init_loop ::
  "arith \<Rightarrow> 'g draw \<Rightarrow> 'g KMedoidsOptimizer \<Rightarrow> int \<Rightarrow> nat list \<Rightarrow> 'g
   \<Rightarrow> nat list \<times> 'g \<times> msg list" where
  "init_loop ar draw opt i medoids g =
     (if i < sint (k opt) \<and> valid_candidates opt \<noteq> [] then
        (let valid_next = valid_next_of ar opt medoids in
         if valid_next = [] then (medoids, g, [Cannot_find (sint (k opt))])
         else (let (r, g') = draw g (length valid_next - 1)
               in init_loop ar draw opt (i + 1) (medoids @ [valid_next ! r]) g'))
      else (medoids, g, []))"
  by pat_completeness auto
termination
  by (relation "measure (\<lambda>(ar, draw, opt, i, medoids, g). nat (sint (k opt) - i))") auto

declare init_loop.simps [simp del]

definition initialize_medoids ::
  "arith \<Rightarrow> 'g draw \<Rightarrow> 'g KMedoidsOptimizer
   \<Rightarrow> nat list \<times> 'g KMedoidsOptimizer \<times> msg list" where
  "initialize_medoids ar draw opt =
     (let available_candidates = valid_candidates opt;
          (medoids, g) =
            (if available_candidates \<noteq> [] then
               (let (first_idx, g') = draw (rng opt) (length available_candidates - 1)
                in ([available_candidates ! first_idx], g'))
             else ([], rng opt));
          (medoids', g', out) = init_loop ar draw opt 1 medoids g
      in (medoids', opt\<lparr>rng := g'\<rparr>, out))"

section \<open>Local search\<close>

record search_state =
  best_medoids :: "nat list"
  best_cost :: real
  improved :: bool
  iterations :: nat
  out_log :: "msg list"

definition max_iterations :: nat where
  "max_iterations = 50"

fun pairs_valid :: "arith \<Rightarrow> 'g KMedoidsOptimizer \<Rightarrow> nat list \<Rightarrow> bool" where
  \<comment> \<open>the flag \<open>valid\<close> after the loops over \<open>j\<close> and \<open>l > j\<close>\<close>
  "pairs_valid ar opt [] = True"
| "pairs_valid ar opt (m # ms) =
     (list_all (\<lambda>m'. \<not> dlt (get_distance ar opt (id_p (points opt ! m)) (id_p (points opt ! m')))
                             (Fin (min_separation ar opt))) ms
      \<and> pairs_valid ar opt ms)"

definition try_swap ::
  "arith \<Rightarrow> 'g KMedoidsOptimizer \<Rightarrow> nat \<Rightarrow> nat \<Rightarrow> search_state \<Rightarrow> search_state" where
  \<comment> \<open>the body of the loop over \<open>candidate_idx\<close>\<close>
  "try_swap ar opt i candidate_idx st =
     (if candidate_idx \<in> set (best_medoids st) then st
      else (let new_medoids = (best_medoids st)[i := candidate_idx] in
            if \<not> pairs_valid ar opt new_medoids then st
            else (let new_cost = calculate_total_cost ar opt new_medoids in
                  if new_cost < best_cost st
                  then st\<lparr>best_medoids := new_medoids, best_cost := new_cost, improved := True\<rparr>
                  else st)))"

definition scan_candidates ::
  "arith \<Rightarrow> 'g KMedoidsOptimizer \<Rightarrow> nat \<Rightarrow> search_state \<Rightarrow> search_state" where
  "scan_candidates ar opt i st = fold (try_swap ar opt i) (valid_candidates opt) st"

function scan_positions ::
  "arith \<Rightarrow> 'g KMedoidsOptimizer \<Rightarrow> nat \<Rightarrow> search_state \<Rightarrow> search_state" where
  "scan_positions ar opt i st =
     (if i < length (best_medoids st)
      then scan_positions ar opt (i + 1) (scan_candidates ar opt i st)
      else st)"
  by pat_completeness auto
termination
proof (relation "measure (\<lambda>(ar, opt, i, st). length (best_medoids st) - i)")
  show "wf (measure (\<lambda>(ar :: arith, opt :: 'g KMedoidsOptimizer, i, st :: search_state).
               length (best_medoids st) - i))"
    by simp
next
  fix ar :: arith and opt :: "'g KMedoidsOptimizer" and i and st :: search_state
  assume less: "i < length (best_medoids st)"
  have same: "length (best_medoids (fold (try_swap ar opt i) cs s)) = length (best_medoids s)"
    for cs and s :: search_state
    by (induction cs arbitrary: s) (simp_all add: try_swap_def Let_def)
  show "((ar, opt, i + 1, scan_candidates ar opt i st), (ar, opt, i, st))
          \<in> measure (\<lambda>(ar, opt, i, st). length (best_medoids st) - i)"
    using less by (simp add: scan_candidates_def same)
qed

declare scan_positions.simps [simp del]

definition round_body :: "arith \<Rightarrow> 'g KMedoidsOptimizer \<Rightarrow> search_state \<Rightarrow> search_state" where
  \<comment> \<open>one pass through the body of the \<open>while\<close> loop\<close>
  "round_body ar opt st =
     (let st1 = st\<lparr>improved := False, iterations := iterations st + 1\<rparr>;
          st2 = scan_positions ar opt 0 st1
      in if improved st2
         then st2\<lparr>out_log := out_log st2 @ [Iteration (iterations st2) (best_cost st2)]\<rparr>
         else st2)"

partial_function (option) local_search ::
  "arith \<Rightarrow> 'g KMedoidsOptimizer \<Rightarrow> search_state \<Rightarrow> search_state option" where
  "local_search ar opt st =
     (if improved st \<and> iterations st < max_iterations
      then local_search ar opt (round_body ar opt st)
      else Some st)"

record 'g run =
  ret_medoids :: "nat list"
  ret_cost :: real
  printed :: "msg list"
  self :: "'g KMedoidsOptimizer"

definition size_t_of_int :: "int \<Rightarrow> int" where
  \<comment> \<open>the conversion of an \<open>int\<close> to the 64-bit \<open>size_t\<close> in \<open>valid_candidates.size() < k\<close>\<close>
  "size_t_of_int i = i mod 2 ^ 64"

definition optimize :: "arith \<Rightarrow> 'g draw \<Rightarrow> 'g KMedoidsOptimizer \<Rightarrow> 'g run option" where
  "optimize ar draw opt0 =
     (let opt = filter_candidates opt0;
          n = length (valid_candidates opt);
          out0 = [Valid_candidates n]
      in if int n < size_t_of_int (sint (k opt))
         then Some \<lparr>ret_medoids = [], ret_cost = DBL_MAX,
                    printed = out0 @ [Not_enough n (sint (k opt))], self = opt\<rparr>
         else (let (medoids, opt', out1) = initialize_medoids ar draw opt;
                   cost0 = calculate_total_cost ar opt' medoids;
                   st0 = \<lparr>best_medoids = medoids, best_cost = cost0, improved = True,
                          iterations = 0, out_log = out0 @ out1 @ [Initial_cost cost0]\<rparr>
               in case local_search ar opt' st0 of
                    None \<Rightarrow> None
                  | Some st \<Rightarrow>
                      Some \<lparr>ret_medoids = best_medoids st, ret_cost = best_cost st,
                            printed = out_log st @ [Converged (iterations st)], self = opt'\<rparr>))"

section \<open>Derived notions used to state the properties\<close>

definition infeasible :: "'g KMedoidsOptimizer \<Rightarrow> bool" where
  \<comment> \<open>the test \<open>valid_candidates.size() < k\<close> of \<open>optimize\<close>, after filtering\<close>
  "infeasible opt0 =
     (int (length (valid_candidates (filter_candidates opt0))) < size_t_of_int (sint (k opt0)))"

definition search_start ::
  "arith \<Rightarrow> 'g draw \<Rightarrow> 'g KMedoidsOptimizer \<Rightarrow> 'g KMedoidsOptimizer \<times> search_state" where
  \<comment> \<open>the optimizer and the loop variables of \<open>optimize\<close> when the \<open>while\<close> loop is reached\<close>
  "search_start ar draw opt0 =
     (let opt = filter_candidates opt0;
          (medoids, opt', out1) = initialize_medoids ar draw opt;
          cost0 = calculate_total_cost ar opt' medoids
      in (opt', \<lparr>best_medoids = medoids, best_cost = cost0, improved = True, iterations = 0,
                 out_log = [Valid_candidates (length (valid_candidates opt))] @ out1
                           @ [Initial_cost cost0]\<rparr>))"

definition point_distance :: "arith \<Rightarrow> 'g KMedoidsOptimizer \<Rightarrow> nat \<Rightarrow> nat \<Rightarrow> double" where
  \<comment> \<open>the distance the code asks for between the points at two indices\<close>
  "point_distance ar opt a b = get_distance ar opt (id_p (points opt ! a)) (id_p (points opt ! b))"

definition great_circle_distance :: "real \<Rightarrow> real \<Rightarrow> real \<Rightarrow> real \<Rightarrow> real \<Rightarrow> real" where
  \<comment> \<open>from the specification, not from the code: the great-circle distance between two
      points given in degrees, on a sphere of radius \<open>r\<close>, is \<open>r\<close> times the angle between
      them at the centre\<close>
  "great_circle_distance r lat1 lon1 lat2 lon2 =
     r * arccos (sin (lat1 * pi / 180) * sin (lat2 * pi / 180)
                 + cos (lat1 * pi / 180) * cos (lat2 * pi / 180) * cos ((lon2 - lon1) * pi / 180))"

definition separated :: "arith \<Rightarrow> 'g KMedoidsOptimizer \<Rightarrow> nat list \<Rightarrow> bool" where
  \<comment> \<open>no two members at different positions are closer than the minimum separation, in
      either direction\<close>
  "separated ar opt ms =
     (\<forall>a b. a < length ms \<and> b < length ms \<and> a \<noteq> b \<longrightarrow>
        \<not> dlt (point_distance ar opt (ms ! a) (ms ! b)) (Fin (min_separation ar opt)))"

definition symmetric_on_points :: "arith \<Rightarrow> 'g KMedoidsOptimizer \<Rightarrow> bool" where
  "symmetric_on_points ar opt =
     (\<forall>a b. a < length (points opt) \<and> b < length (points opt) \<longrightarrow>
        point_distance ar opt a b = point_distance ar opt b a)"

definition checked_one_way :: "arith \<Rightarrow> 'g KMedoidsOptimizer \<Rightarrow> nat list \<Rightarrow> bool" where
  \<comment> \<open>for every two members at different positions, the distance in one direction or the
      other is not below the minimum separation\<close>
  "checked_one_way ar opt ms =
     (\<forall>a b. a < length ms \<and> b < length ms \<and> a \<noteq> b \<longrightarrow>
        \<not> dlt (point_distance ar opt (ms ! a) (ms ! b)) (Fin (min_separation ar opt))
        \<or> \<not> dlt (point_distance ar opt (ms ! b) (ms ! a)) (Fin (min_separation ar opt)))"

definition init_inv :: "arith \<Rightarrow> 'g KMedoidsOptimizer \<Rightarrow> nat list \<Rightarrow> bool" where
  \<comment> \<open>what the initialiser keeps of its list: candidates, no repetition, and every member
      checked against the earlier ones with the new member as \<open>from\<close>\<close>
  "init_inv ar opt ms =
     (set ms \<subseteq> set (valid_candidates opt) \<and> distinct ms
      \<and> (\<forall>a b. a < b \<and> b < length ms \<longrightarrow>
            \<not> dlt (point_distance ar opt (ms ! b) (ms ! a)) (Fin (min_separation ar opt))))"

definition search_inv :: "arith \<Rightarrow> 'g KMedoidsOptimizer \<Rightarrow> search_state \<Rightarrow> bool" where
  \<comment> \<open>what the search keeps of its current set\<close>
  "search_inv ar opt s =
     (set (best_medoids s) \<subseteq> set (valid_candidates opt) \<and> distinct (best_medoids s)
      \<and> checked_one_way ar opt (best_medoids s))"

definition commits ::
  "arith \<Rightarrow> 'g KMedoidsOptimizer \<Rightarrow> nat \<Rightarrow> nat \<Rightarrow> search_state \<Rightarrow> bool" where
  \<comment> \<open>the three tests a trial passes before \<open>try_swap\<close> replaces the current set\<close>
  "commits ar opt i c st =
     (c \<notin> set (best_medoids st) \<and> pairs_valid ar opt ((best_medoids st)[i := c])
      \<and> calculate_total_cost ar opt ((best_medoids st)[i := c]) < best_cost st)"

definition round_inv ::
  "arith \<Rightarrow> 'g KMedoidsOptimizer \<Rightarrow> search_state \<Rightarrow> search_state \<Rightarrow> bool" where
  \<comment> \<open>what holds of the loop variables during a round that started in \<open>s0\<close>\<close>
  "round_inv ar opt s0 s =
     (if improved s then best_cost s < best_cost s0
        \<and> best_cost s = calculate_total_cost ar opt (best_medoids s)
      else best_medoids s = best_medoids s0 \<and> best_cost s = best_cost s0)"





section \<open>Concrete inputs\<close>

text \<open>A generator that replays a given list of draws, each cut down to the range asked for.\<close>

fun scripted :: "nat list draw" where
  "scripted [] hi = (0, [])"
| "scripted (r # rs) hi = (min r hi, rs)"

definition pt :: "int \<Rightarrow> real \<Rightarrow> Point" where
  "pt i w = Point0\<lparr>id_p := i, resource_quantity := w\<rparr>"

text \<open>
  Four points A, B, C, D (identifiers 1 to 4) with weights 2, 1, 3, 1 and the symmetric table
  AB = 10, AC = 50, AD = 80, BC = 40, BD = 70, CD = 30.
\<close>

definition ex_points :: "Point list" where
  "ex_points = [pt 1 2, pt 2 1, pt 3 3, pt 4 1]"

definition ex_table :: "string \<rightharpoonup> (string \<rightharpoonup> double)" where
  "ex_table =
     [''1'' \<mapsto> [''1'' \<mapsto> Fin 0, ''2'' \<mapsto> Fin 10, ''3'' \<mapsto> Fin 50, ''4'' \<mapsto> Fin 80],
      ''2'' \<mapsto> [''1'' \<mapsto> Fin 10, ''2'' \<mapsto> Fin 0, ''3'' \<mapsto> Fin 40, ''4'' \<mapsto> Fin 70],
      ''3'' \<mapsto> [''1'' \<mapsto> Fin 50, ''2'' \<mapsto> Fin 40, ''3'' \<mapsto> Fin 0, ''4'' \<mapsto> Fin 30],
      ''4'' \<mapsto> [''1'' \<mapsto> Fin 80, ''2'' \<mapsto> Fin 70, ''3'' \<mapsto> Fin 30, ''4'' \<mapsto> Fin 0]]"

definition ex_opt :: "nat list KMedoidsOptimizer" where
  "ex_opt = \<lparr>points = ex_points, distance_matrix = ex_table, valid_candidates = [],
     k = 2, min_distance_km = 0, exclude_land_types = {}, max_slope = 30, rng = [1, 2]\<rparr>"

definition ex_at :: "nat list \<Rightarrow> nat list KMedoidsOptimizer" where
  \<comment> \<open>the same optimizer after filtering, with the draws \<open>g\<close> left in its generator\<close>
  "ex_at g = ex_opt\<lparr>valid_candidates := [0, 1, 2, 3], rng := g\<rparr>"

text \<open>
  Two points with a table that is not symmetric: 0 m from point 1 to point 2, 5000 m back.
  The minimum separation is 2 km and \<open>k = 2\<close>.
\<close>

definition cx_table :: "string \<rightharpoonup> (string \<rightharpoonup> double)" where
  "cx_table =
     [''1'' \<mapsto> [''1'' \<mapsto> Fin 0, ''2'' \<mapsto> Fin 0],
      ''2'' \<mapsto> [''1'' \<mapsto> Fin 5000, ''2'' \<mapsto> Fin 0]]"

definition cx_opt :: "nat list KMedoidsOptimizer" where
  "cx_opt = \<lparr>points = [pt 1 1, pt 2 1], distance_matrix = cx_table, valid_candidates = [],
     k = 2, min_distance_km = 2, exclude_land_types = {}, max_slope = 30, rng = [0, 0]\<rparr>"

definition cx_at :: "nat list \<Rightarrow> nat list KMedoidsOptimizer" where
  "cx_at g = cx_opt\<lparr>valid_candidates := [0, 1], rng := g\<rparr>"



text \<open>A table with the single entry from point 1 to point 2.\<close>

definition half_table :: "string \<rightharpoonup> (string \<rightharpoonup> double)" where
  "half_table = [''1'' \<mapsto> [''2'' \<mapsto> Fin 10]]"

text \<open>
  Two points that are nearly antipodal, at (-12, -179) and (12, 1) degrees, without a table,
  and an arithmetic whose additions come out too large by 1 / 2 ^ 52, the gap between 1
  and the next \<open>double\<close>.
\<close>

definition far_points :: "Point list" where
  "far_points = [Point0\<lparr>id_p := 1, lat := - 12, lon := - 179, resource_quantity := 1\<rparr>,
                 Point0\<lparr>id_p := 2, lat := 12, lon := 1, resource_quantity := 1\<rparr>]"

definition far_opt :: "nat list KMedoidsOptimizer" where
  "far_opt = \<lparr>points = far_points, distance_matrix = Map.empty, valid_candidates = [0, 1],
     k = 2, min_distance_km = 2, exclude_land_types = {}, max_slope = 30, rng = []\<rparr>"

definition adds_high :: arith where
  "adds_high = exact\<lparr>f_add := \<lambda>x y. x + y + 1 / 2 ^ 52\<rparr>"

text \<open>The loop variables of the run on the four points: when the loop is reached, after round 1, after round 2.\<close>

definition ex_st0 :: search_state where
  "ex_st0 = \<lparr>best_medoids = [1, 3], best_cost = 110, improved = True, iterations = 0,
     out_log = [Valid_candidates 4, Initial_cost 110]\<rparr>"

definition ex_st1 :: search_state where
  "ex_st1 = \<lparr>best_medoids = [0, 2], best_cost = 40, improved = True, iterations = 1,
     out_log = [Valid_candidates 4, Initial_cost 110, Iteration 1 40]\<rparr>"

definition ex_st2 :: search_state where
  "ex_st2 = \<lparr>best_medoids = [0, 2], best_cost = 40, improved = False, iterations = 2,
     out_log = [Valid_candidates 4, Initial_cost 110, Iteration 1 40]\<rparr>"

section \<open>Basic facts about the search loops\<close>

lemma get_distance_cong:
  "points a = points b \<Longrightarrow> distance_matrix a = distance_matrix b \<Longrightarrow> get_distance ar a = get_distance ar b"
  by (simp add: get_distance_def table_entry_def fun_eq_iff cong: option.case_cong)

lemma size_t_of_int_pos: "0 \<le> sint (w :: 32 word) \<Longrightarrow> size_t_of_int (sint w) = sint w"
proof -
  assume "0 \<le> sint w"
  moreover have "sint w < 2 ^ 31" using sint_lt [of w] by simp
  ultimately show ?thesis by (simp add: size_t_of_int_def)
qed

lemma try_swap_iterations [simp]: "iterations (try_swap ar opt i c st) = iterations st"
  by (simp add: try_swap_def Let_def)

lemma try_swap_out_log [simp]: "out_log (try_swap ar opt i c st) = out_log st"
  by (simp add: try_swap_def Let_def)

lemma try_swap_length [simp]:
  "length (best_medoids (try_swap ar opt i c st)) = length (best_medoids st)"
  by (simp add: try_swap_def Let_def)

lemma fold_try_swap_keeps:
  "iterations (fold (try_swap ar opt i) cs st) = iterations st \<and>
   out_log (fold (try_swap ar opt i) cs st) = out_log st \<and>
   length (best_medoids (fold (try_swap ar opt i) cs st)) = length (best_medoids st)"
  by (induction cs arbitrary: st) simp_all

lemma scan_candidates_keeps [simp]:
  "iterations (scan_candidates ar opt i st) = iterations st"
  "out_log (scan_candidates ar opt i st) = out_log st"
  "length (best_medoids (scan_candidates ar opt i st)) = length (best_medoids st)"
  by (simp_all add: scan_candidates_def fold_try_swap_keeps)

lemma scan_positions_keeps:
  "iterations (scan_positions ar opt i st) = iterations st \<and>
   out_log (scan_positions ar opt i st) = out_log st \<and>
   length (best_medoids (scan_positions ar opt i st)) = length (best_medoids st)"
proof (induction ar opt i st rule: scan_positions.induct)
  case (1 ar opt i st)
  show ?case
  proof (cases "i < length (best_medoids st)")
    case True
    with 1 show ?thesis by (subst (1 2 3) scan_positions.simps) simp
  next
    case False
    then show ?thesis by (subst (1 2 3) scan_positions.simps) simp
  qed
qed

lemma round_body_iterations [simp]: "iterations (round_body ar opt st) = Suc (iterations st)"
  by (simp add: round_body_def Let_def scan_positions_keeps)

lemma round_body_length [simp]:
  "length (best_medoids (round_body ar opt st)) = length (best_medoids st)"
  by (simp add: round_body_def Let_def scan_positions_keeps)

lemma local_search_rule:
  assumes "I st"
    and "\<And>s. I s \<Longrightarrow> improved s \<Longrightarrow> iterations s < max_iterations \<Longrightarrow> I (round_body ar opt s)"
  shows "\<exists>st'. local_search ar opt st = Some st' \<and> I st'
               \<and> \<not> (improved st' \<and> iterations st' < max_iterations)"
  using assms(1)
proof (induction "max_iterations - iterations st" arbitrary: st)
  case 0
  then show ?case by (subst local_search.simps) auto
next
  case (Suc n)
  show ?case
  proof (cases "improved st \<and> iterations st < max_iterations")
    case True
    have "n = max_iterations - iterations (round_body ar opt st)" using Suc.hyps(2) by simp
    moreover have "I (round_body ar opt st)" using assms(2) Suc.prems True by blast
    ultimately obtain st' where "local_search ar opt (round_body ar opt st) = Some st'" "I st'"
      "\<not> (improved st' \<and> iterations st' < max_iterations)"
      using Suc.hyps(1) by blast
    with True show ?thesis by (subst local_search.simps) auto
  next
    case False
    with Suc.prems show ?thesis by (subst local_search.simps) auto
  qed
qed

lemma filter_candidates_fields [simp]:
  "points (filter_candidates opt) = points opt"
  "distance_matrix (filter_candidates opt) = distance_matrix opt"
  "k (filter_candidates opt) = k opt"
  "min_distance_km (filter_candidates opt) = min_distance_km opt"
  "exclude_land_types (filter_candidates opt) = exclude_land_types opt"
  "max_slope (filter_candidates opt) = max_slope opt"
  "rng (filter_candidates opt) = rng opt"
  by (simp_all add: filter_candidates_def)

lemma optimize_infeasible:
  assumes "infeasible opt0"
  shows "optimize ar draw opt0 =
           Some \<lparr>ret_medoids = [], ret_cost = DBL_MAX,
                 printed = [Valid_candidates (length (valid_candidates (filter_candidates opt0))),
                            Not_enough (length (valid_candidates (filter_candidates opt0)))
                                       (sint (k opt0))],
                 self = filter_candidates opt0\<rparr>"
  using assms by (simp add: optimize_def infeasible_def Let_def)

lemma optimize_feasible:
  assumes "\<not> infeasible opt0" and "search_start ar draw opt0 = (opt', st0)"
  shows "optimize ar draw opt0 =
           map_option (\<lambda>st. \<lparr>ret_medoids = best_medoids st, ret_cost = best_cost st,
                               printed = out_log st @ [Converged (iterations st)], self = opt'\<rparr>)
                      (local_search ar opt' st0)"
  using assms
  by (auto simp: optimize_def infeasible_def search_start_def Let_def
           split: prod.splits option.splits)

section \<open>One round of the search\<close>

lemma scan_candidates_preserves:
  assumes "\<And>c s. c \<in> set (valid_candidates opt) \<Longrightarrow> P s \<Longrightarrow> P (try_swap ar opt i c s)" and "P st"
  shows "P (scan_candidates ar opt i st)"
proof -
  have "set cs \<subseteq> set (valid_candidates opt) \<Longrightarrow> P s \<Longrightarrow> P (fold (try_swap ar opt i) cs s)"
    for cs s
    by (induction cs arbitrary: s) (simp_all add: assms(1))
  then show ?thesis using assms(2) by (simp add: scan_candidates_def)
qed

lemma scan_positions_preserves:
  assumes "\<And>i c s. c \<in> set (valid_candidates opt) \<Longrightarrow> P s \<Longrightarrow> P (try_swap ar opt i c s)"
    and "P st"
  shows "P (scan_positions ar opt i st)"
  using assms
proof (induction ar opt i st rule: scan_positions.induct)
  case (1 ar opt i st)
  show ?case
  proof (cases "i < length (best_medoids st)")
    case True
    have "P (scan_candidates ar opt i st)"
    proof (rule scan_candidates_preserves [where P = P])
      show "c \<in> set (valid_candidates opt) \<Longrightarrow> P s \<Longrightarrow> P (try_swap ar opt i c s)" for c s
        by (rule "1.prems"(1))
      show "P st" by (rule "1.prems"(2))
    qed
    then have "P (scan_positions ar opt (i + 1) (scan_candidates ar opt i st))"
      using "1.IH" [OF True] "1.prems"(1) by simp
    with True show ?thesis by (subst scan_positions.simps) simp
  next
    case False
    with 1 show ?thesis by (subst scan_positions.simps) simp
  qed
qed

lemma try_swap_unfold:
  "try_swap ar opt i c st =
     (if c \<notin> set (best_medoids st) \<and> pairs_valid ar opt ((best_medoids st)[i := c])
         \<and> calculate_total_cost ar opt ((best_medoids st)[i := c]) < best_cost st
      then st\<lparr>best_medoids := (best_medoids st)[i := c],
              best_cost := calculate_total_cost ar opt ((best_medoids st)[i := c]),
              improved := True\<rparr>
      else st)"
  by (simp add: try_swap_def Let_def)

lemma try_swap_no_commit: "\<not> commits ar opt i c st \<Longrightarrow> try_swap ar opt i c st = st"
  by (auto simp: try_swap_def Let_def commits_def)

lemma try_swap_commit:
  assumes "commits ar opt i c st"
  shows "best_cost (try_swap ar opt i c st) < best_cost st"
    and "improved (try_swap ar opt i c st)"
    and "best_cost (try_swap ar opt i c st) = calculate_total_cost ar opt (best_medoids (try_swap ar opt i c st))"
  using assms by (simp_all add: try_swap_def Let_def commits_def)

lemma round_inv_le: "round_inv ar opt s0 s \<Longrightarrow> best_cost s \<le> best_cost s0"
  by (cases "improved s") (simp_all add: round_inv_def)

lemma round_inv_try_swap:
  assumes "round_inv ar opt s0 s"
  shows "round_inv ar opt s0 (try_swap ar opt i c s)"
proof (cases "commits ar opt i c s")
  case True
  from try_swap_commit [OF True] round_inv_le [OF assms]
  show ?thesis by (simp add: round_inv_def)
next
  case False
  with assms show ?thesis by (simp add: try_swap_no_commit)
qed

lemma round_inv_round_body: "round_inv ar opt st (round_body ar opt st)"
proof -
  let ?st1 = "st\<lparr>improved := False, iterations := iterations st + 1\<rparr>"
  have "round_inv ar opt st ?st1" by (simp add: round_inv_def)
  then have *: "round_inv ar opt st (scan_positions ar opt 0 ?st1)"
    by (rule scan_positions_preserves [where P = "round_inv ar opt st", rotated])
       (simp_all add: round_inv_try_swap)
  show ?thesis
  proof (cases "improved (scan_positions ar opt 0 ?st1)")
    case True
    with * show ?thesis by (simp add: round_body_def Let_def round_inv_def)
  next
    case False
    with * show ?thesis by (simp add: round_body_def Let_def round_inv_def)
  qed
qed

text \<open>
  Claim C3. A round never raises the cost, and lowers it exactly when it records an
  improvement; a round that records none leaves the medoid set and the cost as they were.
  Every single commit (a trial after which \<open>try_swap\<close> returns a changed state) lowers the
  cost strictly. The stored cost stays the total cost of the stored set. The state \<open>st\<close> is
  arbitrary, so this holds of every round of the \<open>while\<close> loop.
\<close>

theorem round_cost_monotone:
  "best_cost (round_body ar opt st) \<le> best_cost st
   \<and> (best_cost (round_body ar opt st) < best_cost st \<longleftrightarrow> improved (round_body ar opt st))
   \<and> (\<not> improved (round_body ar opt st) \<longrightarrow>
        best_medoids (round_body ar opt st) = best_medoids st
        \<and> best_cost (round_body ar opt st) = best_cost st)
   \<and> (try_swap ar opt i c st \<noteq> st \<longrightarrow> best_cost (try_swap ar opt i c st) < best_cost st)
   \<and> (best_cost st = calculate_total_cost ar opt (best_medoids st) \<longrightarrow>
        best_cost (round_body ar opt st) = calculate_total_cost ar opt (best_medoids (round_body ar opt st)))"
proof -
  note inv = round_inv_round_body [of ar opt st]
  have le: "best_cost (round_body ar opt st) \<le> best_cost st"
    using inv by (rule round_inv_le)
  have strict: "best_cost (round_body ar opt st) < best_cost st \<longleftrightarrow> improved (round_body ar opt st)"
    using inv by (cases "improved (round_body ar opt st)") (simp_all add: round_inv_def)
  have same: "\<not> improved (round_body ar opt st) \<longrightarrow>
        best_medoids (round_body ar opt st) = best_medoids st
        \<and> best_cost (round_body ar opt st) = best_cost st"
    using inv by (simp add: round_inv_def)
  have commit: "try_swap ar opt i c st \<noteq> st \<longrightarrow> best_cost (try_swap ar opt i c st) < best_cost st"
    using try_swap_no_commit [of ar opt i c st] try_swap_commit(1) [of ar opt i c st] by blast
  have tracks: "best_cost st = calculate_total_cost ar opt (best_medoids st) \<longrightarrow>
        best_cost (round_body ar opt st) = calculate_total_cost ar opt (best_medoids (round_body ar opt st))"
    using inv by (cases "improved (round_body ar opt st)") (simp_all add: round_inv_def)
  from le strict same commit tracks show ?thesis by blast
qed

lemma scan_positions_fold:
  "scan_positions ar opt i st =
     fold (\<lambda>(j, c). try_swap ar opt j c)
          (List.product [i..<length (best_medoids st)] (valid_candidates opt)) st"
proof (induction ar opt i st rule: scan_positions.induct)
  case (1 ar opt i st)
  show ?case
  proof (cases "i < length (best_medoids st)")
    case True
    have inner: "fold (\<lambda>(j, c). try_swap ar opt j c) (map (Pair i) cs) s = fold (try_swap ar opt i) cs s"
      for cs s
      by (induction cs arbitrary: s) simp_all
    have "scan_positions ar opt i st = scan_positions ar opt (i + 1) (scan_candidates ar opt i st)"
      using True by (subst scan_positions.simps) simp
    also have "\<dots> = fold (\<lambda>(j, c). try_swap ar opt j c)
                       (List.product [i + 1..<length (best_medoids st)] (valid_candidates opt))
                       (scan_candidates ar opt i st)"
      using "1.IH" [OF True] by simp
    also have "\<dots> = fold (\<lambda>(j, c). try_swap ar opt j c)
                       (List.product [i..<length (best_medoids st)] (valid_candidates opt)) st"
      using True by (simp add: upt_conv_Cons inner scan_candidates_def)
    finally show ?thesis .
  next
    case False
    then show ?thesis by (subst scan_positions.simps) simp
  qed
qed

lemma pairs_valid_iff:
  "pairs_valid ar opt ms \<longleftrightarrow>
     (\<forall>j l. j < l \<and> l < length ms \<longrightarrow>
        \<not> dlt (point_distance ar opt (ms ! j) (ms ! l)) (Fin (min_separation ar opt)))"
proof (induction ms)
  case Nil
  then show ?case by simp
next
  case (Cons m ms)
  show ?case
  proof
    assume a: "pairs_valid ar opt (m # ms)"
    show "\<forall>j l. j < l \<and> l < length (m # ms) \<longrightarrow>
        \<not> dlt (point_distance ar opt ((m # ms) ! j) ((m # ms) ! l)) (Fin (min_separation ar opt))"
    proof (intro allI impI)
      fix j l assume jl: "j < l \<and> l < length (m # ms)"
      then obtain l' where l': "l = Suc l'" "l' < length ms" by (cases l) auto
      show "\<not> dlt (point_distance ar opt ((m # ms) ! j) ((m # ms) ! l)) (Fin (min_separation ar opt))"
      proof (cases j)
        case 0
        with a l' show ?thesis by (auto simp: list_all_iff point_distance_def)
      next
        case (Suc j')
        with jl l' have "j' < l' \<and> l' < length ms" by simp
        with a Cons.IH Suc l' show ?thesis by auto
      qed
    qed
  next
    assume b: "\<forall>j l. j < l \<and> l < length (m # ms) \<longrightarrow>
        \<not> dlt (point_distance ar opt ((m # ms) ! j) ((m # ms) ! l)) (Fin (min_separation ar opt))"
    have "list_all (\<lambda>m'. \<not> dlt (get_distance ar opt (id_p (points opt ! m)) (id_p (points opt ! m'))) (Fin (min_separation ar opt))) ms"
      unfolding list_all_length
    proof (intro allI impI)
      fix n assume "n < length ms"
      with b [rule_format, of 0 "Suc n"]
      show "\<not> dlt (get_distance ar opt (id_p (points opt ! m)) (id_p (points opt ! (ms ! n)))) (Fin (min_separation ar opt))"
        by (simp add: point_distance_def)
    qed
    moreover have "pairs_valid ar opt ms"
      unfolding Cons.IH
    proof (intro allI impI)
      fix j l assume "j < l \<and> l < length ms"
      with b [rule_format, of "Suc j" "Suc l"]
      show "\<not> dlt (point_distance ar opt (ms ! j) (ms ! l)) (Fin (min_separation ar opt))" by simp
    qed
    ultimately show "pairs_valid ar opt (m # ms)" by simp
  qed
qed

section \<open>Insufficient candidates\<close>

text \<open>
  Claim C2. When filtering leaves fewer candidates than \<open>k\<close>, \<open>optimize\<close> returns the empty
  medoid set with the cost \<open>DBL_MAX\<close>. It returns a value (no exception), and the lines it
  printed are the candidate count and the error only: the initialiser and the search loop,
  which print the initial cost and the final round count, were not entered.
\<close>

theorem optimize_insufficient_candidates:
  assumes "int (length (valid_candidates (filter_candidates opt0))) < sint (k opt0)"
  shows "optimize ar draw opt0 =
           Some \<lparr>ret_medoids = [], ret_cost = DBL_MAX,
                 printed = [Valid_candidates (length (valid_candidates (filter_candidates opt0))),
                            Not_enough (length (valid_candidates (filter_candidates opt0)))
                                       (sint (k opt0))],
                 self = filter_candidates opt0\<rparr>"
proof -
  have "0 \<le> sint (k opt0)" using assms by simp
  then have "size_t_of_int (sint (k opt0)) = sint (k opt0)" by (rule size_t_of_int_pos)
  with assms have "infeasible opt0" by (simp add: infeasible_def)
  then show ?thesis by (rule optimize_infeasible)
qed

theorem optimize_insufficient_candidates_witness:
  "int (length (valid_candidates (filter_candidates (ex_opt\<lparr>k := 5\<rparr>))))
     < sint (k (ex_opt\<lparr>k := 5\<rparr>))
   \<and> optimize exact scripted (ex_opt\<lparr>k := 5\<rparr>) =
       Some \<lparr>ret_medoids = [], ret_cost = DBL_MAX,
             printed = [Valid_candidates 4, Not_enough 4 5],
             self = ex_opt\<lparr>k := 5, valid_candidates := [0, 1, 2, 3]\<rparr>\<rparr>"
proof -
  have vc: "filter_candidates (ex_opt\<lparr>k := 5\<rparr>) = ex_opt\<lparr>k := 5, valid_candidates := [0, 1, 2, 3]\<rparr>"
    by (simp add: filter_candidates_def ex_opt_def ex_points_def pt_def Point0_def upt_rec)
  have less: "int (length (valid_candidates (filter_candidates (ex_opt\<lparr>k := 5\<rparr>))))
                < sint (k (ex_opt\<lparr>k := 5\<rparr>))"
    by (simp add: vc)
  show ?thesis
    using less optimize_insufficient_candidates [OF less, of exact scripted] by (simp add: vc)
qed

section \<open>Termination of the search\<close>

lemma funpow_round_iterations [simp]:
  "iterations ((round_body ar opt ^^ n) st) = iterations st + n"
  by (induction n) simp_all

lemma local_search_funpow:
  "\<exists>n. local_search ar opt st = Some ((round_body ar opt ^^ n) st)
       \<and> (\<forall>m<n. improved ((round_body ar opt ^^ m) st) \<and> iterations st + m < max_iterations)
       \<and> \<not> (improved ((round_body ar opt ^^ n) st) \<and> iterations st + n < max_iterations)"
proof (induction "max_iterations - iterations st" arbitrary: st)
  case 0
  then have "local_search ar opt st = Some st" by (subst local_search.simps) auto
  with 0 show ?case by (intro exI [of _ 0]) auto
next
  case (Suc d)
  show ?case
  proof (cases "improved st \<and> iterations st < max_iterations")
    case True
    have "d = max_iterations - iterations (round_body ar opt st)" using Suc.hyps(2) by simp
    from Suc.hyps(1) [OF this] obtain n where
      n: "local_search ar opt (round_body ar opt st) = Some ((round_body ar opt ^^ n) (round_body ar opt st))"
         "\<forall>m<n. improved ((round_body ar opt ^^ m) (round_body ar opt st))
                \<and> iterations (round_body ar opt st) + m < max_iterations"
         "\<not> (improved ((round_body ar opt ^^ n) (round_body ar opt st))
             \<and> iterations (round_body ar opt st) + n < max_iterations)"
      by blast
    have "local_search ar opt st = Some ((round_body ar opt ^^ Suc n) st)"
      using True n(1) by (subst local_search.simps) (simp add: funpow_swap1)
    moreover have "\<forall>m<Suc n. improved ((round_body ar opt ^^ m) st)
                     \<and> iterations st + m < max_iterations"
    proof (intro allI impI)
      fix m assume "m < Suc n"
      show "improved ((round_body ar opt ^^ m) st) \<and> iterations st + m < max_iterations"
      proof (cases m)
        case 0
        with True show ?thesis by simp
      next
        case (Suc m')
        with \<open>m < Suc n\<close> have "m' < n" by simp
        with n(2) Suc show ?thesis by (simp add: funpow_swap1)
      qed
    qed
    moreover have "\<not> (improved ((round_body ar opt ^^ Suc n) st)
                      \<and> iterations st + Suc n < max_iterations)"
      using n(3) by (simp add: funpow_swap1)
    ultimately show ?thesis by blast
  next
    case False
    then have "local_search ar opt st = Some st" by (subst local_search.simps) auto
    with False show ?thesis by (intro exI [of _ 0]) auto
  qed
qed

text \<open>
  Claim C6. On a feasible input the \<open>while\<close> loop of \<open>optimize\<close> returns. It runs \<open>n\<close> rounds
  with \<open>1 \<le> n \<le> 50\<close>: every round before the last one recorded an improvement, and the
  loop stops at the first round that records none or at round 50. \<open>optimize\<close> returns the
  medoid set and cost of that state and prints \<open>Converged n\<close> last.
\<close>

theorem local_search_terminates:
  assumes "\<not> infeasible opt0" and "search_start ar draw opt0 = (opt', st0)"
  shows "\<exists>n r. 1 \<le> n \<and> n \<le> 50
           \<and> local_search ar opt' st0 = Some ((round_body ar opt' ^^ n) st0)
           \<and> (\<forall>m<n. improved ((round_body ar opt' ^^ m) st0))
           \<and> (\<not> improved ((round_body ar opt' ^^ n) st0) \<or> n = 50)
           \<and> iterations ((round_body ar opt' ^^ n) st0) = n
           \<and> optimize ar draw opt0 = Some r
           \<and> ret_medoids r = best_medoids ((round_body ar opt' ^^ n) st0)
           \<and> ret_cost r = best_cost ((round_body ar opt' ^^ n) st0)
           \<and> printed r = out_log ((round_body ar opt' ^^ n) st0) @ [Converged n]"
proof -
  have st0: "improved st0" "iterations st0 = 0"
    using assms(2) by (auto simp: search_start_def Let_def split: prod.splits)
  obtain n where n: "local_search ar opt' st0 = Some ((round_body ar opt' ^^ n) st0)"
    "\<forall>m<n. improved ((round_body ar opt' ^^ m) st0) \<and> iterations st0 + m < max_iterations"
    "\<not> (improved ((round_body ar opt' ^^ n) st0) \<and> iterations st0 + n < max_iterations)"
    using local_search_funpow [of ar opt' st0] by blast
  have "n \<noteq> 0" using n(3) st0 by (auto simp: max_iterations_def intro: ccontr)
  moreover have "n \<le> 50"
  proof (rule ccontr)
    assume "\<not> n \<le> 50"
    then have "50 < n" by simp
    with n(2) have "iterations st0 + 50 < max_iterations" by blast
    then show False by (simp add: max_iterations_def)
  qed
  moreover have "\<not> improved ((round_body ar opt' ^^ n) st0) \<or> n = 50"
    using n(3) st0 \<open>n \<le> 50\<close> by (auto simp: max_iterations_def)
  moreover have "iterations ((round_body ar opt' ^^ n) st0) = n" using st0 by simp
  moreover note n(1) n(2) optimize_feasible [OF assms]
  ultimately show ?thesis by (intro exI [of _ n]) auto
qed

section \<open>The order of the trials\<close>

lemma round_body_fold:
  "round_body ar opt st =
     (let st2 = fold (\<lambda>(i, c). try_swap ar opt i c)
                  (List.product [0..<length (best_medoids st)] (valid_candidates opt))
                  (st\<lparr>improved := False, iterations := iterations st + 1\<rparr>)
      in if improved st2
         then st2\<lparr>out_log := out_log st2 @ [Iteration (iterations st2) (best_cost st2)]\<rparr>
         else st2)"
  by (simp add: round_body_def scan_positions_fold Let_def)

lemma optimize_rounds:
  assumes "\<not> infeasible opt0"
  shows "\<exists>n r. optimize ar draw opt0 = Some r
           \<and> ret_medoids r =
               best_medoids ((round_body ar (fst (search_start ar draw opt0)) ^^ n)
                               (snd (search_start ar draw opt0)))
           \<and> ret_cost r =
               best_cost ((round_body ar (fst (search_start ar draw opt0)) ^^ n)
                            (snd (search_start ar draw opt0)))"
proof -
  obtain opt' st0 where start: "search_start ar draw opt0 = (opt', st0)"
    by (cases "search_start ar draw opt0")
  obtain n where "local_search ar opt' st0 = Some ((round_body ar opt' ^^ n) st0)"
    using local_search_funpow [of ar opt' st0] by blast
  with optimize_feasible [OF assms start] start show ?thesis
    by (intro exI [of _ n]) simp
qed

text \<open>
  Claim C5. The \<open>while\<close> loop of \<open>optimize\<close> is a sequence of rounds, and \<open>optimize\<close>
  returns the set and the cost that the last of them leaves. A round is a single
  left-to-right pass over the trials \<open>(i, c)\<close>, positions of the current set in order and,
  within a position, candidates in \<open>valid_candidates\<close> order; each trial acts on the state
  left by the trials before it. A trial replaces the current set and cost, at once, exactly
  when the candidate is not in the current set, no pair \<open>j < l\<close> of the trial set is closer
  than the minimum separation, and the recomputed cost is strictly below the current cost;
  otherwise it leaves the state as it was.
\<close>

theorem round_is_first_improvement:
  "round_body ar opt st =
     (let st2 = fold (\<lambda>(i, c). try_swap ar opt i c)
                  (List.product [0..<length (best_medoids st)] (valid_candidates opt))
                  (st\<lparr>improved := False, iterations := iterations st + 1\<rparr>)
      in if improved st2
         then st2\<lparr>out_log := out_log st2 @ [Iteration (iterations st2) (best_cost st2)]\<rparr>
         else st2)
   \<and> try_swap ar opt i c st =
       (if c \<notin> set (best_medoids st) \<and> pairs_valid ar opt ((best_medoids st)[i := c])
           \<and> calculate_total_cost ar opt ((best_medoids st)[i := c]) < best_cost st
        then st\<lparr>best_medoids := (best_medoids st)[i := c],
                best_cost := calculate_total_cost ar opt ((best_medoids st)[i := c]),
                improved := True\<rparr>
        else st)
   \<and> (pairs_valid ar opt ms \<longleftrightarrow>
        (\<forall>j l. j < l \<and> l < length ms \<longrightarrow>
           \<not> dlt (point_distance ar opt (ms ! j) (ms ! l)) (Fin (min_separation ar opt))))
   \<and> (\<exists>n. local_search ar opt st = Some ((round_body ar opt ^^ n) st))
   \<and> (\<not> infeasible opt0 \<longrightarrow>
        (\<exists>n r. optimize ar draw opt0 = Some r
           \<and> ret_medoids r =
               best_medoids ((round_body ar (fst (search_start ar draw opt0)) ^^ n)
                               (snd (search_start ar draw opt0)))
           \<and> ret_cost r =
               best_cost ((round_body ar (fst (search_start ar draw opt0)) ^^ n)
                            (snd (search_start ar draw opt0)))))"
proof -
  have "\<exists>n. local_search ar opt st = Some ((round_body ar opt ^^ n) st)"
    using local_search_funpow [of ar opt st] by blast
  with round_body_fold [of ar opt st] try_swap_unfold [of ar opt i c st]
    pairs_valid_iff [of ar opt ms] optimize_rounds [of opt0 ar draw]
  show ?thesis by blast
qed

section \<open>The initialiser\<close>

lemma init_loop_extends: "\<exists>rest. fst (init_loop ar draw opt i medoids g) = medoids @ rest"
proof (induction ar draw opt i medoids g rule: init_loop.induct)
  case (1 ar draw opt i medoids g)
  show ?case
  proof (cases "i < sint (k opt) \<and> valid_candidates opt \<noteq> [] \<and> valid_next_of ar opt medoids \<noteq> []")
    case True
    obtain r g' where d: "draw g (length (valid_next_of ar opt medoids) - 1) = (r, g')"
      by (cases "draw g (length (valid_next_of ar opt medoids) - 1)")
    from "1.IH" [OF _ refl _ d [symmetric]] True
    obtain rest where "fst (init_loop ar draw opt (i + 1) (medoids @ [valid_next_of ar opt medoids ! r]) g')
        = (medoids @ [valid_next_of ar opt medoids ! r]) @ rest"
      by auto
    with True d show ?thesis
      by (subst init_loop.simps) (simp add: Let_def)
  next
    case False
    then show ?thesis
      by (subst init_loop.simps) (auto simp: Let_def)
  qed
qed

lemma init_loop_k_le: "sint (k opt) \<le> i \<Longrightarrow> init_loop ar draw opt i medoids g = (medoids, g, [])"
  by (subst init_loop.simps) simp

lemma local_search_length:
  "\<exists>st'. local_search ar opt st = Some st' \<and> length (best_medoids st') = length (best_medoids st)"
proof -
  from local_search_rule [of "\<lambda>s. length (best_medoids s) = length (best_medoids st)" st ar opt]
  show ?thesis by auto
qed

text \<open>
  Claim C10. With a non-empty candidate list the initialiser returns a list that starts
  with the candidate at the first drawn index, whatever \<open>k\<close> is. With \<open>k = 0\<close> the test
  \<open>valid_candidates.size() < k\<close> fails, and \<open>optimize\<close> returns a medoid set of size 1,
  which is more than \<open>k\<close>.
\<close>

theorem initializer_ignores_k:
  "(valid_candidates opt \<noteq> [] \<longrightarrow>
      (\<exists>rest. fst (initialize_medoids ar draw opt) =
         valid_candidates opt ! fst (draw (rng opt) (length (valid_candidates opt) - 1)) # rest))
   \<and> (k opt0 = 0 \<and> valid_candidates (filter_candidates opt0) \<noteq> [] \<longrightarrow>
      \<not> infeasible opt0
      \<and> (\<exists>r. optimize ar draw opt0 = Some r \<and> length (ret_medoids r) = 1
             \<and> sint (k opt0) < int (length (ret_medoids r))))"
proof (intro conjI impI)
  assume ne: "valid_candidates opt \<noteq> []"
  obtain first_idx g' where d: "draw (rng opt) (length (valid_candidates opt) - 1) = (first_idx, g')"
    by (cases "draw (rng opt) (length (valid_candidates opt) - 1)")
  obtain rest where "fst (init_loop ar draw opt 1 [valid_candidates opt ! first_idx] g')
      = [valid_candidates opt ! first_idx] @ rest"
    using init_loop_extends [of ar draw opt 1 "[valid_candidates opt ! first_idx]" g'] by blast
  with ne d show "\<exists>rest. fst (initialize_medoids ar draw opt) =
         valid_candidates opt ! fst (draw (rng opt) (length (valid_candidates opt) - 1)) # rest"
    by (auto simp: initialize_medoids_def Let_def split: prod.splits)
next
  assume a: "k opt0 = 0 \<and> valid_candidates (filter_candidates opt0) \<noteq> []"
  then show feasible: "\<not> infeasible opt0"
    by (simp add: infeasible_def size_t_of_int_def)
  let ?opt = "filter_candidates opt0"
  obtain first_idx g' where d: "draw (rng ?opt) (length (valid_candidates ?opt) - 1) = (first_idx, g')"
    by (cases "draw (rng ?opt) (length (valid_candidates ?opt) - 1)")
  have "init_loop ar draw ?opt 1 [valid_candidates ?opt ! first_idx] g'
      = ([valid_candidates ?opt ! first_idx], g', [])"
    using a by (intro init_loop_k_le) simp
  with a d have init: "initialize_medoids ar draw ?opt =
      ([valid_candidates ?opt ! first_idx], ?opt\<lparr>rng := g'\<rparr>, [])"
    by (simp add: initialize_medoids_def Let_def)
  obtain opt' st0 where start: "search_start ar draw opt0 = (opt', st0)"
    by (cases "search_start ar draw opt0")
  with init have len: "length (best_medoids st0) = 1"
    by (auto simp: search_start_def Let_def)
  obtain st' where "local_search ar opt' st0 = Some st'"
    "length (best_medoids st') = length (best_medoids st0)"
    using local_search_length [of ar opt' st0] by blast
  with optimize_feasible [OF feasible start] len a
  show "\<exists>r. optimize ar draw opt0 = Some r \<and> length (ret_medoids r) = 1
             \<and> sint (k opt0) < int (length (ret_medoids r))"
    by auto
qed

section \<open>Total cost and assignment\<close>











section \<open>The distance between two loaded points\<close>

lemma atan2_sqrt_arcsin:
  assumes "0 \<le> a" and "a \<le> 1"
  shows "atan2 (sqrt a) (sqrt (1 - a)) = arcsin (sqrt a)"
proof (cases "a = 1")
  case True
  then show ?thesis by (simp add: atan2_def)
next
  case False
  with assms have lt: "a < 1" by simp
  then have pos: "0 < sqrt (1 - a)" by simp
  have "0 \<le> sqrt a" using assms by simp
  then have s: "- 1 < sqrt a" by linarith
  have s': "sqrt a < 1" using lt by simp
  have "arcsin (sqrt a) = arctan (sqrt a / sqrt (1 - (sqrt a)\<^sup>2))"
    using s s' by (rule arcsin_arctan)
  also have "(sqrt a)\<^sup>2 = a" using assms by simp
  finally show ?thesis using pos by (simp add: atan2_def)
qed

lemma twice_arcsin_sqrt:
  assumes "0 \<le> a" and "a \<le> 1"
  shows "2 * arcsin (sqrt a) = arccos (1 - 2 * a)"
proof -
  have s: "0 \<le> sqrt a" "sqrt a \<le> 1" using assms by simp_all
  then have s': "- 1 \<le> sqrt a" by linarith
  have lo: "0 \<le> arcsin (sqrt a)" using s by (intro arcsin_nonneg) simp
  have hi: "arcsin (sqrt a) \<le> pi / 2" using s' s(2) by (rule arcsin_ubound)
  have "cos (2 * arcsin (sqrt a)) = 1 - 2 * (sin (arcsin (sqrt a)))\<^sup>2"
    by (rule cos_double_sin)
  also have "\<dots> = 1 - 2 * a" using s s' assms by simp
  finally have "arccos (1 - 2 * a) = arccos (cos (2 * arcsin (sqrt a)))" by simp
  also have "\<dots> = 2 * arcsin (sqrt a)" using lo hi by (intro arccos_cos) simp_all
  finally show ?thesis by simp
qed

lemma sin_half_square: "sin (x / 2) * sin (x / 2) = (1 - cos x) / (2 :: real)"
proof -
  have "cos x = cos (2 * (x / 2))" by simp
  also have "\<dots> = 1 - 2 * (sin (x / 2))\<^sup>2" by (rule cos_double_sin)
  finally show ?thesis by (simp add: power2_eq_square)
qed

lemma haversine_term:
  fixes p1 p2 dl :: real
  shows "1 - 2 * (sin ((p2 - p1) / 2) * sin ((p2 - p1) / 2)
                  + cos p1 * cos p2 * sin (dl / 2) * sin (dl / 2))
         = sin p1 * sin p2 + cos p1 * cos p2 * cos dl"
proof -
  have "sin ((p2 - p1) / 2) * sin ((p2 - p1) / 2) + cos p1 * cos p2 * sin (dl / 2) * sin (dl / 2)
      = (1 - cos (p2 - p1)) / 2 + cos p1 * cos p2 * ((1 - cos dl) / 2)"
    by (simp only: mult.assoc sin_half_square)
  then show ?thesis by (simp only:) (simp add: cos_diff field_simps)
qed

lemma dot_product_bounds:
  fixes p1 p2 dl :: real
  shows "- 1 \<le> sin p1 * sin p2 + cos p1 * cos p2 * cos dl"
    and "sin p1 * sin p2 + cos p1 * cos p2 * cos dl \<le> 1"
proof -
  define u where "u = (1 + cos dl) / 2"
  define v where "v = (1 - cos dl) / 2"
  define A where "A = cos (p1 - p2)"
  define B where "B = - cos (p1 + p2)"
  have c: "- 1 \<le> cos dl" "cos dl \<le> 1" by simp_all
  have "0 \<le> 1 + cos dl" "0 \<le> 1 - cos dl" using c by linarith+
  then have u: "0 \<le> u" and v: "0 \<le> v"
    by (simp_all add: u_def v_def)
  have uv: "u + v = 1"
    by (simp add: u_def v_def field_simps)
  have A: "- 1 \<le> A" "A \<le> 1" and B: "- 1 \<le> B" "B \<le> 1"
    by (simp_all add: A_def B_def)
  have e: "sin p1 * sin p2 + cos p1 * cos p2 * cos dl = u * A + v * B"
    by (simp add: u_def v_def A_def B_def cos_diff cos_add field_simps)
  have m1: "u * A \<le> u * 1" using A(2) u by (rule mult_left_mono)
  have m2: "v * B \<le> v * 1" using B(2) v by (rule mult_left_mono)
  have m3: "u * (- 1) \<le> u * A" using A(1) u by (rule mult_left_mono)
  have m4: "v * (- 1) \<le> v * B" using B(1) v by (rule mult_left_mono)
  have lower: "- 1 \<le> u * A + v * B" using m3 m4 uv by linarith
  have upper: "u * A + v * B \<le> 1" using m1 m2 uv by linarith
  from lower upper
  show "- 1 \<le> sin p1 * sin p2 + cos p1 * cos p2 * cos dl"
    and "sin p1 * sin p2 + cos p1 * cos p2 * cos dl \<le> 1"
    unfolding e by simp_all
qed

lemma exact_fields [simp]:
  "f_add exact = (+)" "f_sub exact = (-)" "f_mul exact = (*)" "f_div exact = (/)"
  "f_sin exact = sin" "f_cos exact = cos" "f_sqrt exact = sqrt" "f_atan2 exact = atan2"
  "M_PI exact = pi"
  by (simp_all add: exact_def)

text \<open>
  In exact arithmetic the variable \<open>a\<close> lies between 0 and 1, and the code's formula, with
  \<open>atan2\<close> of two square roots, is the great-circle distance on a sphere of radius
  6371000 m, for all coordinates.
\<close>

lemma haversine_is_great_circle:
  "haversine_distance exact lat1 lon1 lat2 lon2 =
     Fin (great_circle_distance 6371000 lat1 lon1 lat2 lon2)"
proof -
  define p1 where "p1 = lat1 * pi / 180"
  define p2 where "p2 = lat2 * pi / 180"
  define dl where "dl = (lon2 - lon1) * pi / 180"
  define a where "a = sin ((p2 - p1) / 2) * sin ((p2 - p1) / 2)
                      + cos p1 * cos p2 * sin (dl / 2) * sin (dl / 2)"
  define dot where "dot = sin p1 * sin p2 + cos p1 * cos p2 * cos dl"
  have dlat: "(lat2 - lat1) * pi / 180 = p2 - p1"
    by (simp add: p1_def p2_def algebra_simps diff_divide_distrib)
  have a_eq: "haversine_a exact lat1 lon1 lat2 lon2 = a"
    unfolding haversine_a_def Let_def exact_fields dlat
    unfolding p1_def [symmetric] p2_def [symmetric] dl_def [symmetric] a_def ..
  have dot: "1 - 2 * a = dot"
    unfolding a_def dot_def by (rule haversine_term)
  have "- 1 \<le> dot" "dot \<le> 1"
    unfolding dot_def by (rule dot_product_bounds)+
  with dot have a: "0 \<le> a" "a \<le> 1" by linarith+
  have "2 * atan2 (sqrt a) (sqrt (1 - a)) = arccos dot"
    using atan2_sqrt_arcsin [OF a] twice_arcsin_sqrt [OF a] dot by simp
  moreover have "great_circle_distance 6371000 lat1 lon1 lat2 lon2 = 6371000 * arccos dot"
    unfolding great_circle_distance_def dot_def p1_def p2_def dl_def ..
  ultimately show ?thesis
    using a by (simp add: haversine_distance_def Let_def a_eq d_sqrt_def)
qed

text \<open>
  In any arithmetic the result is NaN exactly when \<open>a\<close> comes out negative or above 1, so
  that one of the square roots has a negative argument.
\<close>

lemma haversine_nan_iff:
  "haversine_distance ar lat1 lon1 lat2 lon2 = NaN \<longleftrightarrow>
     haversine_a ar lat1 lon1 lat2 lon2 < 0
     \<or> f_sub ar 1 (haversine_a ar lat1 lon1 lat2 lon2) < 0"
  by (simp add: haversine_distance_def d_sqrt_def Let_def)

lemma scan_step_simps [simp]:
  "fst (scan_step a b p acc) = (if id_p p = a then p else fst acc)"
  "snd (scan_step a b p acc) = (if id_p p = b then p else snd acc)"
  by (simp_all add: scan_step_def case_prod_beta)

lemma scan_absent:
  "\<forall>x\<in>set ps. id_p x \<noteq> a \<Longrightarrow> fst (fold (scan_step a b) ps acc) = fst acc"
  "\<forall>x\<in>set ps. id_p x \<noteq> b \<Longrightarrow> snd (fold (scan_step a b) ps acc) = snd acc"
  by (induction ps arbitrary: acc) simp_all

lemma scan_present_from:
  assumes "distinct (map id_p ps)" and "p \<in> set ps"
  shows "fst (fold (scan_step (id_p p) b) ps acc) = p"
  using assms
proof (induction ps arbitrary: acc)
  case Nil
  then show ?case by simp
next
  case (Cons x xs)
  show ?case
  proof (cases "p = x")
    case True
    with Cons.prems have "\<forall>y\<in>set xs. id_p y \<noteq> id_p p" by (auto simp: image_iff)
    from scan_absent(1) [OF this] True show ?thesis by simp
  next
    case False
    with Cons.prems have "distinct (map id_p xs)" "p \<in> set xs" by simp_all
    from Cons.IH [OF this] show ?thesis by simp
  qed
qed

lemma scan_present_to:
  assumes "distinct (map id_p ps)" and "p \<in> set ps"
  shows "snd (fold (scan_step a (id_p p)) ps acc) = p"
  using assms
proof (induction ps arbitrary: acc)
  case Nil
  then show ?case by simp
next
  case (Cons x xs)
  show ?case
  proof (cases "p = x")
    case True
    with Cons.prems have "\<forall>y\<in>set xs. id_p y \<noteq> id_p p" by (auto simp: image_iff)
    from scan_absent(2) [OF this] True show ?thesis by simp
  next
    case False
    with Cons.prems have "distinct (map id_p xs)" "p \<in> set xs" by simp_all
    from Cons.IH [OF this] show ?thesis by simp
  qed
qed

lemma find_points_loaded:
  assumes "distinct (map id_p ps)" and "p \<in> set ps" and "q \<in> set ps"
  shows "find_points ps (id_p p) (id_p q) = (p, q)"
  using scan_present_from [OF assms(1,2)] scan_present_to [OF assms(1,3)]
  by (simp add: find_points_def prod_eq_iff)

text \<open>
  Claim C7. For two loaded points, with identifiers that are unique in the point list,
  \<open>get_distance\<close> returns the table entry under the key of the first identifier and then
  the key of the second, in this order, when both levels have it; otherwise it returns what
  \<open>haversine_distance\<close> computes from the coordinates of the two points. It is total: a
  missing entry is not an error. In exact arithmetic the value computed is the great-circle
  distance with radius 6371000 m. In the arithmetic of \<open>double\<close> it is NaN, and no
  distance, exactly when rounding leaves \<open>a\<close> negative or above 1; the second happens for
  points that are nearly antipodal.
\<close>

theorem get_distance_table_or_haversine:
  assumes "distinct (map id_p (points opt))" and "p \<in> set (points opt)"
    and "q \<in> set (points opt)"
  shows "get_distance ar opt (id_p p) (id_p q) =
     (case distance_matrix opt (to_string (id_p p)) of
        None \<Rightarrow> haversine_distance ar (lat p) (lon p) (lat q) (lon q)
      | Some row \<Rightarrow>
          (case row (to_string (id_p q)) of
             None \<Rightarrow> haversine_distance ar (lat p) (lon p) (lat q) (lon q)
           | Some d \<Rightarrow> d))
   \<and> haversine_distance exact (lat p) (lon p) (lat q) (lon q) =
       Fin (great_circle_distance 6371000 (lat p) (lon p) (lat q) (lon q))
   \<and> (haversine_distance ar (lat p) (lon p) (lat q) (lon q) = NaN \<longleftrightarrow>
        haversine_a ar (lat p) (lon p) (lat q) (lon q) < 0
        \<or> f_sub ar 1 (haversine_a ar (lat p) (lon p) (lat q) (lon q)) < 0)"
proof -
  have "get_distance ar opt (id_p p) (id_p q) =
     (case distance_matrix opt (to_string (id_p p)) of
        None \<Rightarrow> haversine_distance ar (lat p) (lon p) (lat q) (lon q)
      | Some row \<Rightarrow>
          (case row (to_string (id_p q)) of
             None \<Rightarrow> haversine_distance ar (lat p) (lon p) (lat q) (lon q)
           | Some d \<Rightarrow> d))"
    using find_points_loaded [OF assms]
    by (simp add: get_distance_def table_entry_def split: option.splits)
  with haversine_is_great_circle [of "lat p" "lon p" "lat q" "lon q"]
    haversine_nan_iff [of ar "lat p" "lon p" "lat q" "lon q"]
  show ?thesis by blast
qed

section \<open>Separation of the medoids\<close>

lemma point_distance_cong:
  "points a = points b \<Longrightarrow> distance_matrix a = distance_matrix b
   \<Longrightarrow> point_distance ar a = point_distance ar b"
  by (simp add: point_distance_def fun_eq_iff get_distance_cong [of a b])

lemma filter_candidates_range:
  "set (valid_candidates (filter_candidates opt)) \<subseteq> {..<length (points opt)}"
  by (auto simp: filter_candidates_def)

lemma valid_next_of_member:
  assumes "c \<in> set (valid_next_of ar opt ms)"
  shows "c \<in> set (valid_candidates opt)" and "c \<notin> set ms"
    and "\<forall>m\<in>set ms. \<not> dlt (point_distance ar opt c m) (Fin (min_separation ar opt))"
  using assms
  by (auto simp: valid_next_of_def satisfies_min_distance_def list_all_iff point_distance_def)

lemma init_inv_snoc:
  assumes "init_inv ar opt ms" and "c \<in> set (valid_next_of ar opt ms)"
  shows "init_inv ar opt (ms @ [c])"
proof -
  note c = valid_next_of_member [OF assms(2)]
  have "\<not> dlt (point_distance ar opt ((ms @ [c]) ! b) ((ms @ [c]) ! a)) (Fin (min_separation ar opt))"
    if "a < b \<and> b < length (ms @ [c])" for a b
  proof (cases "b < length ms")
    case True
    with that assms(1) show ?thesis by (simp add: init_inv_def nth_append)
  next
    case False
    with that have b: "b = length ms" and a: "a < length ms" by auto
    then have "ms ! a \<in> set ms" by simp
    with c(3) a b show ?thesis by (simp add: nth_append)
  qed
  with assms(1) c(1,2) show ?thesis by (simp add: init_inv_def)
qed

lemma draw_in_rangeD: "draw_in_range draw \<Longrightarrow> draw g hi = (r, g') \<Longrightarrow> r \<le> hi"
  by (metis draw_in_range_def fst_conv)

lemma fst_initialize_medoids:
  "fst (initialize_medoids ar draw opt) =
     (if valid_candidates opt \<noteq> []
      then fst (init_loop ar draw opt 1
                 [valid_candidates opt ! fst (draw (rng opt) (length (valid_candidates opt) - 1))]
                 (snd (draw (rng opt) (length (valid_candidates opt) - 1))))
      else fst (init_loop ar draw opt 1 [] (rng opt)))"
  by (simp add: initialize_medoids_def Let_def case_prod_beta)

lemma init_loop_inv:
  assumes "draw_in_range draw" and "init_inv ar opt medoids"
  shows "init_inv ar opt (fst (init_loop ar draw opt i medoids g))"
  using assms
proof (induction ar draw opt i medoids g rule: init_loop.induct)
  case (1 ar draw opt i medoids g)
  show ?case
  proof (cases "i < sint (k opt) \<and> valid_candidates opt \<noteq> [] \<and> valid_next_of ar opt medoids \<noteq> []")
    case True
    obtain r g' where d: "draw g (length (valid_next_of ar opt medoids) - 1) = (r, g')"
      by (cases "draw g (length (valid_next_of ar opt medoids) - 1)")
    have "r \<le> length (valid_next_of ar opt medoids) - 1"
      using "1.prems"(1) d by (rule draw_in_rangeD)
    with True have "valid_next_of ar opt medoids ! r \<in> set (valid_next_of ar opt medoids)"
      by (intro nth_mem) (cases "valid_next_of ar opt medoids", auto)
    then have "init_inv ar opt (medoids @ [valid_next_of ar opt medoids ! r])"
      by (rule init_inv_snoc [OF "1.prems"(2)])
    with "1.IH" [OF _ refl _ d [symmetric]] True "1.prems"(1)
    have "init_inv ar opt (fst (init_loop ar draw opt (i + 1) (medoids @ [valid_next_of ar opt medoids ! r]) g'))"
      by simp
    with True d show ?thesis
      by (subst init_loop.simps) (simp add: Let_def)
  next
    case False
    with "1.prems"(2) show ?thesis
      by (subst init_loop.simps) (auto simp: Let_def)
  qed
qed

lemma initialize_medoids_inv:
  assumes "draw_in_range draw"
  shows "init_inv ar opt (fst (initialize_medoids ar draw opt))"
proof (cases "valid_candidates opt = []")
  case True
  have "init_inv ar opt []" by (simp add: init_inv_def)
  from init_loop_inv [OF assms this, of 1 "rng opt"] True
  show ?thesis by (simp add: fst_initialize_medoids)
next
  case False
  obtain first_idx g' where d: "draw (rng opt) (length (valid_candidates opt) - 1) = (first_idx, g')"
    by (cases "draw (rng opt) (length (valid_candidates opt) - 1)")
  have "first_idx \<le> length (valid_candidates opt) - 1"
    using assms d by (rule draw_in_rangeD)
  with False have "valid_candidates opt ! first_idx \<in> set (valid_candidates opt)"
    by (intro nth_mem) (cases "valid_candidates opt", auto)
  then have "init_inv ar opt [valid_candidates opt ! first_idx]"
    by (simp add: init_inv_def)
  from init_loop_inv [OF assms this, of 1 g'] False d
  show ?thesis by (simp add: fst_initialize_medoids)
qed

lemma initialize_medoids_self:
  "\<exists>g'. fst (snd (initialize_medoids ar draw opt)) = opt\<lparr>rng := g'\<rparr>"
  by (simp add: initialize_medoids_def Let_def case_prod_beta) blast

lemma separated_cong:
  "points a = points b \<Longrightarrow> distance_matrix a = distance_matrix b
   \<Longrightarrow> min_distance_km a = min_distance_km b \<Longrightarrow> separated ar a = separated ar b"
  by (simp add: separated_def min_separation_def fun_eq_iff point_distance_cong [of a b])

lemma symmetric_on_points_cong:
  "points a = points b \<Longrightarrow> distance_matrix a = distance_matrix b
   \<Longrightarrow> symmetric_on_points ar a = symmetric_on_points ar b"
  by (simp add: symmetric_on_points_def point_distance_cong [of a b])

lemma checked_one_way_cong:
  "points a = points b \<Longrightarrow> distance_matrix a = distance_matrix b
   \<Longrightarrow> min_distance_km a = min_distance_km b \<Longrightarrow> checked_one_way ar a = checked_one_way ar b"
  by (simp add: checked_one_way_def min_separation_def fun_eq_iff point_distance_cong [of a b])

lemma init_inv_one_way:
  assumes "init_inv ar opt ms"
  shows "checked_one_way ar opt ms"
  unfolding checked_one_way_def
proof (intro allI impI)
  fix a b assume ab: "a < length ms \<and> b < length ms \<and> a \<noteq> b"
  then consider "a < b" | "b < a" by linarith
  then show "\<not> dlt (point_distance ar opt (ms ! a) (ms ! b)) (Fin (min_separation ar opt))
      \<or> \<not> dlt (point_distance ar opt (ms ! b) (ms ! a)) (Fin (min_separation ar opt))"
  proof cases
    case 1
    with ab assms show ?thesis by (simp add: init_inv_def)
  next
    case 2
    with ab assms show ?thesis by (simp add: init_inv_def)
  qed
qed

lemma pairs_valid_one_way:
  assumes "pairs_valid ar opt ms"
  shows "checked_one_way ar opt ms"
  unfolding checked_one_way_def
proof (intro allI impI)
  fix a b assume ab: "a < length ms \<and> b < length ms \<and> a \<noteq> b"
  then consider "a < b" | "b < a" by linarith
  then show "\<not> dlt (point_distance ar opt (ms ! a) (ms ! b)) (Fin (min_separation ar opt))
      \<or> \<not> dlt (point_distance ar opt (ms ! b) (ms ! a)) (Fin (min_separation ar opt))"
  proof cases
    case 1
    with ab assms show ?thesis by (simp add: pairs_valid_iff)
  next
    case 2
    with ab assms show ?thesis by (simp add: pairs_valid_iff)
  qed
qed

lemma one_way_separated:
  assumes sym: "symmetric_on_points ar opt" and range: "set ms \<subseteq> {..<length (points opt)}"
    and one: "checked_one_way ar opt ms"
  shows "separated ar opt ms"
  unfolding separated_def
proof (intro allI impI)
  fix a b assume ab: "a < length ms \<and> b < length ms \<and> a \<noteq> b"
  then have "ms ! a < length (points opt)" "ms ! b < length (points opt)"
    using range by (auto dest: nth_mem)
  with sym have "point_distance ar opt (ms ! a) (ms ! b) = point_distance ar opt (ms ! b) (ms ! a)"
    by (simp add: symmetric_on_points_def)
  with one ab show "\<not> dlt (point_distance ar opt (ms ! a) (ms ! b)) (Fin (min_separation ar opt))"
    unfolding checked_one_way_def by fastforce
qed

lemma search_inv_try_swap:
  assumes c: "c \<in> set (valid_candidates opt)" and inv: "search_inv ar opt s"
  shows "search_inv ar opt (try_swap ar opt i c s)"
proof (cases "commits ar opt i c s")
  case True
  let ?new = "(best_medoids s)[i := c]"
  have new: "try_swap ar opt i c s = s\<lparr>best_medoids := ?new,
      best_cost := calculate_total_cost ar opt ?new, improved := True\<rparr>"
    using True by (simp add: try_swap_unfold commits_def)
  have sub: "set ?new \<subseteq> set (valid_candidates opt)"
    using set_update_subset_insert [of "best_medoids s" i c] c inv
    by (auto simp: search_inv_def)
  have dist: "distinct ?new"
    using True inv by (simp add: distinct_list_update commits_def search_inv_def)
  have "checked_one_way ar opt ?new"
    using True by (intro pairs_valid_one_way) (simp add: commits_def)
  with sub dist show ?thesis by (simp add: new search_inv_def)
next
  case False
  with inv show ?thesis by (simp add: try_swap_no_commit)
qed

lemma search_inv_round_body:
  assumes inv: "search_inv ar opt s"
  shows "search_inv ar opt (round_body ar opt s)"
proof -
  let ?s1 = "s\<lparr>improved := False, iterations := iterations s + 1\<rparr>"
  have "search_inv ar opt ?s1" using inv by (simp add: search_inv_def)
  then have "search_inv ar opt (scan_positions ar opt 0 ?s1)"
    by (rule scan_positions_preserves [where P = "search_inv ar opt", rotated])
       (rule search_inv_try_swap)
  then show ?thesis by (simp add: round_body_def Let_def search_inv_def)
qed

lemma search_start_fields:
  assumes "search_start ar draw opt0 = (opt', st0)"
  shows "points opt' = points opt0" "distance_matrix opt' = distance_matrix opt0"
    "min_distance_km opt' = min_distance_km opt0"
    "valid_candidates opt' = valid_candidates (filter_candidates opt0)"
    "best_medoids st0 = fst (initialize_medoids ar draw (filter_candidates opt0))"
proof -
  obtain g' where "fst (snd (initialize_medoids ar draw (filter_candidates opt0)))
      = (filter_candidates opt0)\<lparr>rng := g'\<rparr>"
    using initialize_medoids_self [of ar draw "filter_candidates opt0"] by blast
  with assms have opt': "opt' = (filter_candidates opt0)\<lparr>rng := g'\<rparr>"
    by (auto simp: search_start_def Let_def split: prod.splits)
  show "points opt' = points opt0" "distance_matrix opt' = distance_matrix opt0"
    "min_distance_km opt' = min_distance_km opt0"
    "valid_candidates opt' = valid_candidates (filter_candidates opt0)"
    by (simp_all add: opt')
  show "best_medoids st0 = fst (initialize_medoids ar draw (filter_candidates opt0))"
    using assms by (auto simp: search_start_def Let_def split: prod.splits)
qed

lemma optimize_search_inv:
  assumes draw: "draw_in_range draw"
  shows "\<exists>r. optimize ar draw opt0 = Some r
           \<and> set (ret_medoids r) \<subseteq> set (valid_candidates (filter_candidates opt0))
           \<and> distinct (ret_medoids r) \<and> checked_one_way ar opt0 (ret_medoids r)"
proof (cases "infeasible opt0")
  case True
  from optimize_infeasible [OF True, of ar draw] show ?thesis
    by (simp add: checked_one_way_def)
next
  case False
  let ?opt = "filter_candidates opt0"
  let ?ms0 = "fst (initialize_medoids ar draw ?opt)"
  have inv0: "init_inv ar ?opt ?ms0"
    using draw by (rule initialize_medoids_inv)
  obtain opt' st0 where start: "search_start ar draw opt0 = (opt', st0)"
    by (cases "search_start ar draw opt0")
  note f = search_start_fields [OF start]
  have same: "checked_one_way ar opt' = checked_one_way ar opt0"
    using checked_one_way_cong [of opt' opt0 ar] f by simp
  have "checked_one_way ar ?opt = checked_one_way ar opt0"
    using checked_one_way_cong [of ?opt opt0 ar] by simp
  with init_inv_one_way [OF inv0] have "checked_one_way ar opt0 ?ms0" by simp
  with inv0 f same have "search_inv ar opt' st0"
    by (simp add: search_inv_def init_inv_def)
  from local_search_rule [of "search_inv ar opt'" st0 ar opt', OF this] search_inv_round_body
  obtain st' where "local_search ar opt' st0 = Some st'" "search_inv ar opt' st'"
    by blast
  with optimize_feasible [OF False start] same f show ?thesis
    by (simp add: search_inv_def)
qed

lemma separated_numbers:
  assumes "separated ar opt ms" and "a < length ms" and "b < length ms" and "a \<noteq> b"
    and "point_distance ar opt (ms ! a) (ms ! b) = Fin d"
  shows "min_separation ar opt \<le> d"
proof -
  from assms(1-4) have "\<not> dlt (point_distance ar opt (ms ! a) (ms ! b)) (Fin (min_separation ar opt))"
    unfolding separated_def by blast
  with assms(5) show ?thesis by simp
qed

text \<open>
  Claim C1, amended. Both separation tests reject a pair only when
  \<open>dist < min_distance_km * 1000\<close> holds, which is false for a distance that is NaN, and
  each pair is tested in one direction: the initialiser asks for the distance from the new
  member to each earlier one, and the search for the distance from the earlier position to
  the later one. So \<open>optimize\<close> returns a set without repetition in which, for every two
  members, the distance in one direction or the other is not below the minimum separation,
  and so is the initial set. When the distances between the loaded points are symmetric,
  this holds of every two members of either set in both directions; a distance between two
  members that is a number is then at least the minimum separation. The hypothesis on
  \<open>draw\<close> is the contract of \<open>std::uniform_int_distribution\<close>.
\<close>

theorem separation_with_symmetric_distances:
  assumes draw: "draw_in_range draw"
  shows "\<exists>r. optimize ar draw opt0 = Some r \<and> distinct (ret_medoids r)
           \<and> checked_one_way ar opt0 (fst (initialize_medoids ar draw (filter_candidates opt0)))
           \<and> checked_one_way ar opt0 (ret_medoids r)
           \<and> (symmetric_on_points ar opt0 \<longrightarrow>
                separated ar opt0 (fst (initialize_medoids ar draw (filter_candidates opt0)))
                \<and> separated ar opt0 (ret_medoids r)
                \<and> (\<forall>a b d. a < length (ret_medoids r) \<and> b < length (ret_medoids r) \<and> a \<noteq> b
                      \<and> point_distance ar opt0 (ret_medoids r ! a) (ret_medoids r ! b) = Fin d
                      \<longrightarrow> min_separation ar opt0 \<le> d))"
proof -
  let ?opt = "filter_candidates opt0"
  let ?ms0 = "fst (initialize_medoids ar draw ?opt)"
  have range: "set (valid_candidates ?opt) \<subseteq> {..<length (points opt0)}"
    by (rule filter_candidates_range)
  have inv0: "init_inv ar ?opt ?ms0"
    using draw by (rule initialize_medoids_inv)
  then have sub0: "set ?ms0 \<subseteq> set (valid_candidates ?opt)"
    by (simp add: init_inv_def)
  have "checked_one_way ar ?opt = checked_one_way ar opt0"
    using checked_one_way_cong [of ?opt opt0 ar] by simp
  with init_inv_one_way [OF inv0] have one0: "checked_one_way ar opt0 ?ms0" by simp
  obtain r where r: "optimize ar draw opt0 = Some r"
    "set (ret_medoids r) \<subseteq> set (valid_candidates ?opt)"
    "distinct (ret_medoids r)" "checked_one_way ar opt0 (ret_medoids r)"
    using optimize_search_inv [OF draw, of ar opt0] by blast
  have "separated ar opt0 ?ms0 \<and> separated ar opt0 (ret_medoids r)
      \<and> (\<forall>a b d. a < length (ret_medoids r) \<and> b < length (ret_medoids r) \<and> a \<noteq> b
            \<and> point_distance ar opt0 (ret_medoids r ! a) (ret_medoids r ! b) = Fin d
            \<longrightarrow> min_separation ar opt0 \<le> d)"
    if sym: "symmetric_on_points ar opt0"
  proof (intro conjI)
    show "separated ar opt0 ?ms0"
      using sym _ one0 by (rule one_way_separated) (use sub0 range in blast)
    show final: "separated ar opt0 (ret_medoids r)"
      using sym _ r(4) by (rule one_way_separated) (use r(2) range in blast)
    show "\<forall>a b d. a < length (ret_medoids r) \<and> b < length (ret_medoids r) \<and> a \<noteq> b
            \<and> point_distance ar opt0 (ret_medoids r ! a) (ret_medoids r ! b) = Fin d
            \<longrightarrow> min_separation ar opt0 \<le> d"
      using separated_numbers [OF final] by blast
  qed
  with r one0 show ?thesis by blast
qed

section \<open>The run on the four-point input\<close>

lemma to_string_digits:
  "to_string 1 = ''1''" "to_string 2 = ''2''" "to_string 3 = ''3''" "to_string 4 = ''4''"
  by (simp_all add: to_string_def nat_to_string.simps digit_char_def)

lemma upt_4: "[0..<4] = [0, 1, 2, 3]"
  by (simp add: upt_rec)

lemma ex_filter: "filter_candidates ex_opt = ex_at [Suc 0, 2]"
  by (simp add: filter_candidates_def ex_at_def ex_opt_def ex_points_def pt_def Point0_def upt_4)

lemma ex_fields:
  "points (ex_at g) = ex_points"
  "valid_candidates (ex_at g) = [0, Suc 0, 2, 3]"
  "min_distance_km (ex_at g) = 0"
  "k (ex_at g) = 2"
  "rng (ex_at g) = g"
  "(ex_at g)\<lparr>rng := g'\<rparr> = ex_at g'"
  by (simp_all add: ex_at_def ex_opt_def)

lemma ex_ids:
  "id_p (ex_points ! 0) = 1" "id_p (ex_points ! 1) = 2"
  "id_p (ex_points ! 2) = 3" "id_p (ex_points ! 3) = 4"
  "id_p (ex_points ! Suc 0) = 2"
  by (simp_all add: ex_points_def pt_def)

lemma ex_weights:
  "resource_quantity (ex_points ! 0) = 2" "resource_quantity (ex_points ! 1) = 1"
  "resource_quantity (ex_points ! 2) = 3" "resource_quantity (ex_points ! 3) = 1"
  "resource_quantity (ex_points ! Suc 0) = 1" "length ex_points = 4"
  by (simp_all add: ex_points_def pt_def Point0_def)

lemma ex_distance:
  "get_distance exact (ex_at g) 1 1 = Fin 0"
  "get_distance exact (ex_at g) 1 2 = Fin 10"
  "get_distance exact (ex_at g) 1 3 = Fin 50"
  "get_distance exact (ex_at g) 1 4 = Fin 80"
  "get_distance exact (ex_at g) 2 1 = Fin 10"
  "get_distance exact (ex_at g) 2 2 = Fin 0"
  "get_distance exact (ex_at g) 2 3 = Fin 40"
  "get_distance exact (ex_at g) 2 4 = Fin 70"
  "get_distance exact (ex_at g) 3 1 = Fin 50"
  "get_distance exact (ex_at g) 3 2 = Fin 40"
  "get_distance exact (ex_at g) 3 3 = Fin 0"
  "get_distance exact (ex_at g) 3 4 = Fin 30"
  "get_distance exact (ex_at g) 4 1 = Fin 80"
  "get_distance exact (ex_at g) 4 2 = Fin 70"
  "get_distance exact (ex_at g) 4 3 = Fin 30"
  "get_distance exact (ex_at g) 4 4 = Fin 0"
  by (simp_all add: get_distance_def table_entry_def ex_at_def ex_opt_def ex_table_def to_string_digits)

lemma below_DBL_MAX: "x \<le> 5000 \<Longrightarrow> x < DBL_MAX"
  by (simp add: DBL_MAX_def)

lemma std_min_later [simp]: "std_min a (Fin y) = (if y < a then y else a)"
  by (simp add: std_min_def)

lemma ex_min_separation [simp]: "min_separation exact (ex_at g) = 0"
  by (simp add: min_separation_def ex_at_def ex_opt_def)

lemmas ex_eval = ex_fields ex_ids ex_weights ex_distance upt_4 below_DBL_MAX

lemma ex_costs:
  "calculate_total_cost exact (ex_at g) [Suc 0, 3] = 110"
  "calculate_total_cost exact (ex_at g) [0, 3] = 100"
  "calculate_total_cost exact (ex_at g) [2, 3] = 140"
  "calculate_total_cost exact (ex_at g) [0, Suc 0] = 190"
  "calculate_total_cost exact (ex_at g) [0, 2] = 40"
  "calculate_total_cost exact (ex_at g) [Suc 0, 2] = 50"
  "calculate_total_cost exact (ex_at g) [3, 2] = 140"
  by (simp_all add: calculate_total_cost_def nearest_dist_def ex_eval)

lemma ex_initialize:
  "initialize_medoids exact scripted (ex_at [Suc 0, 2]) = ([Suc 0, 3], ex_at [], [])"
proof -
  have next1: "valid_next_of exact (ex_at [Suc 0, 2]) [Suc 0] = [0, 2, 3]"
    by (simp add: valid_next_of_def satisfies_min_distance_def ex_eval)
  have loop2: "init_loop exact scripted (ex_at [Suc 0, 2]) 2 [Suc 0, 3] [] = ([Suc 0, 3], [], [])"
    by (subst init_loop.simps) (simp add: ex_fields)
  have loop1: "init_loop exact scripted (ex_at [Suc 0, 2]) 1 [Suc 0] [2] = ([Suc 0, 3], [], [])"
    by (subst init_loop.simps) (simp add: ex_fields next1 loop2)
  show ?thesis
    by (simp add: initialize_medoids_def ex_fields loop1)
qed

lemma ex_search_start:
  "search_start exact scripted ex_opt =
     (ex_at [],
      ex_st0)"
  by (simp add: search_start_def ex_filter ex_initialize ex_costs ex_fields ex_st0_def)

lemma ex_scan_1:
  "scan_positions exact (ex_at g) 0
     \<lparr>best_medoids = [Suc 0, 3], best_cost = 110, improved = False, iterations = n, out_log = out\<rparr> =
     \<lparr>best_medoids = [0, 2], best_cost = 40, improved = True, iterations = n, out_log = out\<rparr>"
  by (simp add: scan_positions_fold try_swap_def ex_costs ex_eval)

lemma ex_scan_2:
  "scan_positions exact (ex_at g) 0
     \<lparr>best_medoids = [0, 2], best_cost = 40, improved = False, iterations = n, out_log = out\<rparr> =
     \<lparr>best_medoids = [0, 2], best_cost = 40, improved = False, iterations = n, out_log = out\<rparr>"
  by (simp add: scan_positions_fold try_swap_def ex_costs ex_eval)

lemma ex_round_1:
  "round_body exact (ex_at g)
     \<lparr>best_medoids = [Suc 0, 3], best_cost = 110, improved = True, iterations = n, out_log = out\<rparr> =
     \<lparr>best_medoids = [0, 2], best_cost = 40, improved = True, iterations = Suc n,
      out_log = out @ [Iteration (Suc n) 40]\<rparr>"
  by (simp add: round_body_def ex_scan_1)

lemma ex_round_2:
  "round_body exact (ex_at g)
     \<lparr>best_medoids = [0, 2], best_cost = 40, improved = True, iterations = n, out_log = out\<rparr> =
     \<lparr>best_medoids = [0, 2], best_cost = 40, improved = False, iterations = Suc n, out_log = out\<rparr>"
  by (simp add: round_body_def ex_scan_2)

lemma ex_rounds:
  "round_body exact (ex_at g) ex_st0 = ex_st1" "round_body exact (ex_at g) ex_st1 = ex_st2"
  by (simp_all add: ex_st0_def ex_st1_def ex_st2_def ex_round_1 ex_round_2)

lemma ex_not_infeasible: "\<not> infeasible ex_opt"
proof -
  have "k ex_opt = 2" by (simp add: ex_opt_def)
  then show ?thesis by (simp add: infeasible_def ex_filter ex_fields size_t_of_int_def)
qed

lemma ex_local_search: "local_search exact (ex_at g) ex_st0 = Some ex_st2"
proof -
  have "local_search exact (ex_at g) ex_st2 = Some ex_st2"
    by (subst local_search.simps) (simp add: ex_st2_def)
  then have "local_search exact (ex_at g) ex_st1 = Some ex_st2"
    by (subst local_search.simps) (simp add: ex_rounds, simp add: ex_st1_def max_iterations_def)
  then show ?thesis
    by (subst local_search.simps) (simp add: ex_rounds, simp add: ex_st0_def max_iterations_def)
qed

lemma ex_optimize:
  "optimize exact scripted ex_opt =
     Some \<lparr>ret_medoids = [0, 2], ret_cost = 40,
           printed = [Valid_candidates 4, Initial_cost 110, Iteration 1 40, Converged 2],
           self = ex_at []\<rparr>"
  by (simp add: optimize_feasible [OF ex_not_infeasible ex_search_start] ex_local_search)
     (simp add: ex_st2_def)

text \<open>Claim C6 on the four-point input: two rounds, the second without improvement.\<close>

theorem local_search_terminates_witness:
  "\<not> infeasible ex_opt \<and> search_start exact scripted ex_opt = (ex_at [], ex_st0)
   \<and> (round_body exact (ex_at []) ^^ 2) ex_st0 = ex_st2
   \<and> improved ex_st0 \<and> improved ex_st1 \<and> \<not> improved ex_st2
   \<and> optimize exact scripted ex_opt =
       Some \<lparr>ret_medoids = [0, 2], ret_cost = 40,
             printed = [Valid_candidates 4, Initial_cost 110, Iteration 1 40, Converged 2],
             self = ex_at []\<rparr>
   \<and> (\<exists>n r. 1 \<le> n \<and> n \<le> 50
           \<and> local_search exact (ex_at []) ex_st0 = Some ((round_body exact (ex_at []) ^^ n) ex_st0)
           \<and> (\<forall>m<n. improved ((round_body exact (ex_at []) ^^ m) ex_st0))
           \<and> (\<not> improved ((round_body exact (ex_at []) ^^ n) ex_st0) \<or> n = 50)
           \<and> iterations ((round_body exact (ex_at []) ^^ n) ex_st0) = n
           \<and> optimize exact scripted ex_opt = Some r
           \<and> ret_medoids r = best_medoids ((round_body exact (ex_at []) ^^ n) ex_st0)
           \<and> ret_cost r = best_cost ((round_body exact (ex_at []) ^^ n) ex_st0)
           \<and> printed r = out_log ((round_body exact (ex_at []) ^^ n) ex_st0) @ [Converged n])"
proof -
  have two: "(round_body exact (ex_at []) ^^ 2) ex_st0 = ex_st2"
    by (simp add: numeral_2_eq_2 ex_rounds)
  have flags: "improved ex_st0" "improved ex_st1" "\<not> improved ex_st2"
    by (simp_all add: ex_st0_def ex_st1_def ex_st2_def)
  from local_search_terminates [OF ex_not_infeasible ex_search_start]
    ex_not_infeasible ex_search_start two flags ex_optimize
  show ?thesis unfolding ex_rounds [of "[]"] by blast
qed

text \<open>Claim C3 on both rounds of that run: 110 falls to 40, then nothing changes.\<close>

theorem round_cost_monotone_witness:
  "best_cost ex_st0 = 110 \<and> round_body exact (ex_at []) ex_st0 = ex_st1 \<and> best_cost ex_st1 = 40
   \<and> best_cost (round_body exact (ex_at []) ex_st0) < best_cost ex_st0
   \<and> improved (round_body exact (ex_at []) ex_st0)
   \<and> try_swap exact (ex_at []) 0 0 ex_st0 \<noteq> ex_st0
   \<and> best_cost (try_swap exact (ex_at []) 0 0 ex_st0) < best_cost ex_st0
   \<and> best_cost ex_st0 = calculate_total_cost exact (ex_at []) (best_medoids ex_st0)
   \<and> best_cost (round_body exact (ex_at []) ex_st0)
       = calculate_total_cost exact (ex_at []) (best_medoids (round_body exact (ex_at []) ex_st0))
   \<and> round_body exact (ex_at []) ex_st1 = ex_st2
   \<and> \<not> improved (round_body exact (ex_at []) ex_st1)
   \<and> best_medoids (round_body exact (ex_at []) ex_st1) = best_medoids ex_st1
   \<and> best_cost (round_body exact (ex_at []) ex_st1) = best_cost ex_st1"
proof -
  have swap: "try_swap exact (ex_at []) 0 0 ex_st0 \<noteq> ex_st0"
    by (simp add: try_swap_def ex_st0_def ex_costs ex_eval)
  have tracks: "best_cost ex_st0 = calculate_total_cost exact (ex_at []) (best_medoids ex_st0)"
    by (simp add: ex_st0_def ex_costs)
  have vals: "best_cost ex_st0 = 110" "best_cost ex_st1 = 40" "improved ex_st1"
    "\<not> improved ex_st2"
    by (simp_all add: ex_st0_def ex_st1_def ex_st2_def)
  from round_cost_monotone [of exact "ex_at []" ex_st0 0 0]
    round_cost_monotone [of exact "ex_at []" ex_st1 0 0]
    swap tracks vals
  show ?thesis by (simp add: ex_rounds)
qed

text \<open>
  Claim C5 on that run. Round 1 is the pass over eight trials: the trial \<open>(0, 0)\<close> commits
  \<open>[0, 3]\<close>, and the later trials \<open>(1, 1)\<close> and \<open>(1, 2)\<close> are judged against that set and its
  cost 100. The search is two rounds, and \<open>optimize\<close> returns what they leave.
\<close>

theorem round_is_first_improvement_witness:
  "round_body exact (ex_at []) ex_st0 =
     (let st2 = fold (\<lambda>(i, c). try_swap exact (ex_at []) i c)
                  [(0, 0), (0, 1), (0, 2), (0, 3), (1, 0), (1, 1), (1, 2), (1, 3)]
                  (ex_st0\<lparr>improved := False, iterations := iterations ex_st0 + 1\<rparr>)
      in if improved st2
         then st2\<lparr>out_log := out_log st2 @ [Iteration (iterations st2) (best_cost st2)]\<rparr>
         else st2)
   \<and> round_body exact (ex_at []) ex_st0 = ex_st1
   \<and> try_swap exact (ex_at []) 0 0 (ex_st0\<lparr>improved := False, iterations := 1\<rparr>) =
       ex_st0\<lparr>improved := True, iterations := 1, best_medoids := [0, 3], best_cost := 100\<rparr>
   \<and> try_swap exact (ex_at []) 1 1
        (ex_st0\<lparr>improved := True, iterations := 1, best_medoids := [0, 3], best_cost := 100\<rparr>) =
       ex_st0\<lparr>improved := True, iterations := 1, best_medoids := [0, 3], best_cost := 100\<rparr>
   \<and> try_swap exact (ex_at []) 1 2
        (ex_st0\<lparr>improved := True, iterations := 1, best_medoids := [0, 3], best_cost := 100\<rparr>) =
       ex_st0\<lparr>improved := True, iterations := 1, best_medoids := [0, 2], best_cost := 40\<rparr>
   \<and> pairs_valid exact (ex_at []) [0, 3]
   \<and> \<not> infeasible ex_opt
   \<and> search_start exact scripted ex_opt = (ex_at [], ex_st0)
   \<and> (round_body exact (ex_at []) ^^ 2) ex_st0 = ex_st2
   \<and> local_search exact (ex_at []) ex_st0 = Some ex_st2
   \<and> best_medoids ex_st2 = [0, 2] \<and> best_cost ex_st2 = 40
   \<and> (\<exists>n r. optimize exact scripted ex_opt = Some r
         \<and> ret_medoids r = best_medoids ((round_body exact (ex_at []) ^^ n) ex_st0)
         \<and> ret_cost r = best_cost ((round_body exact (ex_at []) ^^ n) ex_st0))"
proof -
  have len: "[0..<length (best_medoids ex_st0)] = [0, 1]"
    by (simp add: ex_st0_def upt_rec)
  have prod: "List.product [0, 1] (valid_candidates (ex_at [])) =
      [(0, 0), (0, 1), (0, 2), (0, 3), (1, 0), (1, 1), (1, 2), (1, 3)]"
    by (simp add: ex_fields)
  note inst = round_is_first_improvement
      [of exact "ex_at []" ex_st0 0 0 "[0, 3]" ex_opt scripted]
  have order: "round_body exact (ex_at []) ex_st0 =
     (let st2 = fold (\<lambda>(i, c). try_swap exact (ex_at []) i c)
                  [(0, 0), (0, 1), (0, 2), (0, 3), (1, 0), (1, 1), (1, 2), (1, 3)]
                  (ex_st0\<lparr>improved := False, iterations := iterations ex_st0 + 1\<rparr>)
      in if improved st2
         then st2\<lparr>out_log := out_log st2 @ [Iteration (iterations st2) (best_cost st2)]\<rparr>
         else st2)"
    using inst [THEN conjunct1] unfolding len prod .
  have first: "try_swap exact (ex_at []) 0 0 (ex_st0\<lparr>improved := False, iterations := 1\<rparr>) =
       ex_st0\<lparr>improved := True, iterations := 1, best_medoids := [0, 3], best_cost := 100\<rparr>"
    by (simp add: try_swap_def ex_st0_def ex_costs ex_eval)
  have later_no: "try_swap exact (ex_at []) 1 1
        (ex_st0\<lparr>improved := True, iterations := 1, best_medoids := [0, 3], best_cost := 100\<rparr>) =
       ex_st0\<lparr>improved := True, iterations := 1, best_medoids := [0, 3], best_cost := 100\<rparr>"
    by (simp add: try_swap_def ex_st0_def ex_costs ex_eval)
  have later_yes: "try_swap exact (ex_at []) 1 2
        (ex_st0\<lparr>improved := True, iterations := 1, best_medoids := [0, 3], best_cost := 100\<rparr>) =
       ex_st0\<lparr>improved := True, iterations := 1, best_medoids := [0, 2], best_cost := 40\<rparr>"
    by (simp add: try_swap_def ex_st0_def ex_costs ex_eval)
  have valid: "pairs_valid exact (ex_at []) [0, 3]"
    by (simp add: ex_eval)
  have two: "(round_body exact (ex_at []) ^^ 2) ex_st0 = ex_st2"
    by (simp add: numeral_2_eq_2 ex_rounds)
  have final: "best_medoids ex_st2 = [0, 2]" "best_cost ex_st2 = 40"
    by (simp_all add: ex_st2_def)
  have rounds: "\<exists>n r. optimize exact scripted ex_opt = Some r
         \<and> ret_medoids r = best_medoids ((round_body exact (ex_at []) ^^ n) ex_st0)
         \<and> ret_cost r = best_cost ((round_body exact (ex_at []) ^^ n) ex_st0)"
    using inst ex_not_infeasible by (simp add: ex_search_start)
  from order ex_rounds(1) [of "[]"] first later_no later_yes valid ex_not_infeasible
    ex_search_start two ex_local_search [of "[]"] final rounds
  show ?thesis by blast
qed

text \<open>Claim C10 on the four-point input, as it is and with \<open>k = 0\<close>.\<close>

theorem initializer_ignores_k_witness:
  "valid_candidates (ex_at [1, 2]) \<noteq> []
   \<and> fst (initialize_medoids exact scripted (ex_at [1, 2])) = [1, 3]
   \<and> valid_candidates (ex_at [1, 2]) ! fst (scripted (rng (ex_at [1, 2])) (length (valid_candidates (ex_at [1, 2])) - 1)) = 1
   \<and> k (ex_opt\<lparr>k := 0\<rparr>) = 0 \<and> valid_candidates (filter_candidates (ex_opt\<lparr>k := 0\<rparr>)) \<noteq> []
   \<and> \<not> infeasible (ex_opt\<lparr>k := 0\<rparr>)
   \<and> (\<exists>r. optimize exact scripted (ex_opt\<lparr>k := 0\<rparr>) = Some r \<and> length (ret_medoids r) = 1
          \<and> sint (k (ex_opt\<lparr>k := 0\<rparr>)) < int (length (ret_medoids r)))"
proof -
  have ne: "valid_candidates (ex_at [1, 2]) \<noteq> []"
    by (simp add: ex_fields)
  have init: "fst (initialize_medoids exact scripted (ex_at [1, 2])) = [1, 3]"
    by (simp add: ex_initialize)
  have first: "valid_candidates (ex_at [1, 2]) ! fst (scripted (rng (ex_at [1, 2])) (length (valid_candidates (ex_at [1, 2])) - 1)) = 1"
    by (simp add: ex_fields)
  have k0: "k (ex_opt\<lparr>k := 0\<rparr>) = 0" by simp
  have vc: "valid_candidates (filter_candidates (ex_opt\<lparr>k := 0\<rparr>)) \<noteq> []"
    by (simp add: filter_candidates_def ex_opt_def ex_points_def pt_def Point0_def upt_4)
  note inst = initializer_ignores_k [of "ex_at [1, 2]" exact scripted "ex_opt\<lparr>k := 0\<rparr>"]
  from inst ne init first k0 vc show ?thesis by blast
qed

section \<open>The run on the two-point input\<close>

lemma cx_filter: "filter_candidates cx_opt = cx_at [0, 0]"
  by (simp add: filter_candidates_def cx_at_def cx_opt_def pt_def Point0_def upt_rec)

lemma cx_fields:
  "points (cx_at g) = [pt 1 1, pt 2 1]"
  "valid_candidates (cx_at g) = [0, Suc 0]"
  "min_distance_km (cx_at g) = 2"
  "k (cx_at g) = 2"
  "rng (cx_at g) = g"
  "(cx_at g)\<lparr>rng := g'\<rparr> = cx_at g'"
  by (simp_all add: cx_at_def cx_opt_def)

lemma cx_ids: "id_p (pt a w) = a" "resource_quantity (pt a w) = w"
  by (simp_all add: pt_def Point0_def)

lemma cx_distance:
  "get_distance exact (cx_at g) 1 1 = Fin 0" "get_distance exact (cx_at g) 1 2 = Fin 0"
  "get_distance exact (cx_at g) 2 1 = Fin 5000" "get_distance exact (cx_at g) 2 2 = Fin 0"
  by (simp_all add: get_distance_def table_entry_def cx_at_def cx_opt_def cx_table_def
        to_string_digits)

lemma cx_min_separation [simp]: "min_separation exact (cx_at g) = 2000"
  by (simp add: min_separation_def cx_at_def cx_opt_def)

lemma cx_initialize: "initialize_medoids exact scripted (cx_at [0, 0]) = ([0, Suc 0], cx_at [], [])"
proof -
  have next1: "valid_next_of exact (cx_at [0, 0]) [0] = [Suc 0]"
    by (simp add: valid_next_of_def satisfies_min_distance_def cx_fields cx_ids cx_distance)
  have loop2: "init_loop exact scripted (cx_at [0, 0]) 2 [0, Suc 0] [] = ([0, Suc 0], [], [])"
    by (subst init_loop.simps) (simp add: cx_fields)
  have loop1: "init_loop exact scripted (cx_at [0, 0]) 1 [0] [0] = ([0, Suc 0], [], [])"
    by (subst init_loop.simps) (simp add: cx_fields next1 loop2)
  show ?thesis
    by (simp add: initialize_medoids_def cx_fields loop1)
qed

lemma cx_cost: "calculate_total_cost exact (cx_at g) [0, Suc 0] = 0"
  by (simp add: calculate_total_cost_def nearest_dist_def cx_fields cx_ids cx_distance
        upt_rec [of 0 2] upt_rec [of 1 2] DBL_MAX_def)

lemma cx_search_start:
  "search_start exact scripted cx_opt =
     (cx_at [], \<lparr>best_medoids = [0, 1], best_cost = 0, improved = True, iterations = 0,
                 out_log = [Valid_candidates 2, Initial_cost 0]\<rparr>)"
  by (simp add: search_start_def cx_filter cx_initialize cx_cost cx_fields)

lemma cx_round:
  "round_body exact (cx_at g)
     \<lparr>best_medoids = [0, Suc 0], best_cost = 0, improved = True, iterations = 0, out_log = out\<rparr> =
     \<lparr>best_medoids = [0, Suc 0], best_cost = 0, improved = False, iterations = Suc 0, out_log = out\<rparr>"
  by (simp add: round_body_def scan_positions_fold try_swap_def cx_fields upt_rec [of 0 2]
        upt_rec [of 1 2])

lemma cx_not_infeasible: "\<not> infeasible cx_opt"
proof -
  have "k cx_opt = 2" by (simp add: cx_opt_def)
  then show ?thesis by (simp add: infeasible_def cx_filter cx_fields size_t_of_int_def)
qed

lemma cx_optimize:
  "optimize exact scripted cx_opt =
     Some \<lparr>ret_medoids = [0, 1], ret_cost = 0,
           printed = [Valid_candidates 2, Initial_cost 0, Converged 1], self = cx_at []\<rparr>"
proof -
  have stop: "local_search exact (cx_at [])
      \<lparr>best_medoids = [0, Suc 0], best_cost = 0, improved = False, iterations = Suc 0,
       out_log = [Valid_candidates 2, Initial_cost 0]\<rparr> =
     Some \<lparr>best_medoids = [0, Suc 0], best_cost = 0, improved = False, iterations = Suc 0,
       out_log = [Valid_candidates 2, Initial_cost 0]\<rparr>"
    by (subst local_search.simps) simp
  have "local_search exact (cx_at [])
      \<lparr>best_medoids = [0, 1], best_cost = 0, improved = True, iterations = 0,
       out_log = [Valid_candidates 2, Initial_cost 0]\<rparr> =
     Some \<lparr>best_medoids = [0, Suc 0], best_cost = 0, improved = False, iterations = Suc 0,
       out_log = [Valid_candidates 2, Initial_cost 0]\<rparr>"
    by (subst local_search.simps) (simp add: max_iterations_def cx_round stop)
  then show ?thesis
    by (simp add: optimize_feasible [OF cx_not_infeasible cx_search_start])
qed

text \<open>
  Claim C1 as stated fails on the two-point input: the initialiser accepts point 2 after
  point 1 because the distance from 2 to 1 is 5000 m, the search changes nothing, and the
  returned set \<open>[0, 1]\<close> has distance 0 m from its first to its second member, below the
  2000 m required.
\<close>

theorem separation_counterexample:
  "optimize exact scripted cx_opt =
     Some \<lparr>ret_medoids = [0, 1], ret_cost = 0,
           printed = [Valid_candidates 2, Initial_cost 0, Converged 1], self = cx_at []\<rparr>
   \<and> fst (initialize_medoids exact scripted (filter_candidates cx_opt)) = [0, 1]
   \<and> point_distance exact cx_opt ([0, 1] ! 0) ([0, 1] ! 1) = Fin 0
   \<and> min_separation exact cx_opt = 2000
   \<and> \<not> separated exact cx_opt [0, 1]"
proof -
  have d: "point_distance exact cx_opt ([0, 1] ! 0) ([0, 1] ! 1) = Fin 0"
    by (simp add: point_distance_def get_distance_def table_entry_def cx_opt_def cx_table_def
          cx_ids to_string_digits)
  have m: "min_separation exact cx_opt = 2000" by (simp add: min_separation_def cx_opt_def)
  have "\<not> separated exact cx_opt [0, 1]"
  proof
    assume "separated exact cx_opt [0, 1]"
    then have "\<not> dlt (point_distance exact cx_opt ([0, 1] ! 0) ([0, 1] ! 1))
                    (Fin (min_separation exact cx_opt))"
      unfolding separated_def by (elim allE [of _ 0] allE [of _ 1]) simp
    with d m show False by simp
  qed
  with d m cx_optimize show ?thesis by (simp add: cx_filter cx_initialize)
qed

lemma scripted_in_range: "draw_in_range scripted"
  unfolding draw_in_range_def
proof (intro allI)
  fix g :: "nat list" and hi
  show "fst (scripted g hi) \<le> hi" by (cases g) simp_all
qed

lemma ex_symmetric: "symmetric_on_points exact (ex_at g)"
  unfolding symmetric_on_points_def
proof (intro allI impI)
  fix a b assume "a < length (points (ex_at g)) \<and> b < length (points (ex_at g))"
  then have "a < 4" "b < 4" by (simp_all add: ex_fields ex_weights)
  then have "(a = 0 \<or> a = 1 \<or> a = 2 \<or> a = 3) \<and> (b = 0 \<or> b = 1 \<or> b = 2 \<or> b = 3)"
    by linarith
  then show "point_distance exact (ex_at g) a b = point_distance exact (ex_at g) b a"
    by (elim conjE disjE) (simp_all add: point_distance_def ex_eval)
qed

text \<open>Claim C1, amended, on the four-point input with a minimum separation of 35 m.\<close>

theorem separation_with_symmetric_distances_witness:
  "draw_in_range scripted
   \<and> symmetric_on_points exact (ex_opt\<lparr>min_distance_km := 35 / 1000\<rparr>)
   \<and> (\<exists>r. optimize exact scripted (ex_opt\<lparr>min_distance_km := 35 / 1000\<rparr>) = Some r
          \<and> distinct (ret_medoids r)
          \<and> checked_one_way exact (ex_opt\<lparr>min_distance_km := 35 / 1000\<rparr>)
               (fst (initialize_medoids exact scripted
                      (filter_candidates (ex_opt\<lparr>min_distance_km := 35 / 1000\<rparr>))))
          \<and> checked_one_way exact (ex_opt\<lparr>min_distance_km := 35 / 1000\<rparr>) (ret_medoids r)
          \<and> separated exact (ex_opt\<lparr>min_distance_km := 35 / 1000\<rparr>)
               (fst (initialize_medoids exact scripted
                      (filter_candidates (ex_opt\<lparr>min_distance_km := 35 / 1000\<rparr>))))
          \<and> separated exact (ex_opt\<lparr>min_distance_km := 35 / 1000\<rparr>) (ret_medoids r))"
proof -
  have "symmetric_on_points exact (ex_opt\<lparr>min_distance_km := 35 / 1000\<rparr>) = symmetric_on_points exact (ex_at [])"
    by (rule symmetric_on_points_cong) (simp_all add: ex_at_def)
  then have sym: "symmetric_on_points exact (ex_opt\<lparr>min_distance_km := 35 / 1000\<rparr>)"
    by (simp add: ex_symmetric)
  from separation_with_symmetric_distances [OF scripted_in_range,
      of exact "ex_opt\<lparr>min_distance_km := 35 / 1000\<rparr>"] scripted_in_range sym
  show ?thesis by blast
qed

section \<open>Inputs with a distance that is NaN\<close>








text \<open>
  The nearly antipodal points. In exact arithmetic \<open>a\<close> is 1 and the distance is half the
  circumference. With the additions that come out too large \<open>a\<close> is above 1, the argument
  of the second square root is negative, and the distance is NaN in both directions.
\<close>

lemma far_fields:
  "points far_opt = far_points" "distance_matrix far_opt = Map.empty"
  "length far_points = 2"
  "id_p (far_points ! 0) = 1" "id_p (far_points ! Suc 0) = 2"
  "lat (far_points ! 0) = - 12" "lon (far_points ! 0) = - 179"
  "lat (far_points ! Suc 0) = 12" "lon (far_points ! Suc 0) = 1"
  by (simp_all add: far_opt_def far_points_def)

lemma adds_high_fields [simp]:
  "f_add adds_high = (\<lambda>x y. x + y + 1 / 2 ^ 52)" "f_sub adds_high = (-)"
  "f_mul adds_high = (*)" "f_div adds_high = (/)" "f_sin adds_high = sin"
  "f_cos adds_high = cos" "M_PI adds_high = pi"
  by (simp_all add: adds_high_def exact_def)

lemma far_angles:
  "(12 - - 12) * pi / 180 / 2 = pi / 15" "- 12 * pi / 180 = - (pi / 15)"
  "12 * pi / 180 = pi / 15" "(1 - - 179) * pi / 180 / 2 = pi / 2"
  "(1 - - 179) * pi / 180 = pi"
  "(- 12 - 12) * pi / 180 / 2 = - (pi / 15)" "(- 179 - 1) * pi / 180 / 2 = - (pi / 2)"
  by simp_all

lemma far_a_high:
  "haversine_a adds_high (- 12) (- 179) 12 1 = 1 + 1 / 2 ^ 52"
  "haversine_a adds_high 12 1 (- 12) (- 179) = 1 + 1 / 2 ^ 52"
proof -
  have one: "sin (pi / 15) * sin (pi / 15) + cos (pi / 15) * cos (pi / 15) = (1 :: real)"
    using sin_cos_squared_add3 [of "pi / 15 :: real"] by (simp add: add.commute)
  show "haversine_a adds_high (- 12) (- 179) 12 1 = 1 + 1 / 2 ^ 52"
    unfolding haversine_a_def Let_def adds_high_fields far_angles
    using one by simp
  show "haversine_a adds_high 12 1 (- 12) (- 179) = 1 + 1 / 2 ^ 52"
    unfolding haversine_a_def Let_def adds_high_fields far_angles
    using one by simp
qed

lemma far_great_circle: "great_circle_distance 6371000 (- 12) (- 179) 12 1 = 6371000 * pi"
proof -
  have one: "sin (pi / 15) * sin (pi / 15) + cos (pi / 15) * cos (pi / 15) = (1 :: real)"
    using sin_cos_squared_add3 [of "pi / 15 :: real"] by (simp add: add.commute)
  have "sin (- 12 * pi / 180) * sin (12 * pi / 180)
        + cos (- 12 * pi / 180) * cos (12 * pi / 180) * cos ((1 - - 179) * pi / 180)
      = - (sin (pi / 15) * sin (pi / 15) + cos (pi / 15) * cos (pi / 15))"
    unfolding far_angles by simp
  also have "\<dots> = - 1" by (simp only: one)
  finally show ?thesis
    unfolding great_circle_distance_def by simp
qed



section \<open>The amended claims on these inputs\<close>




text \<open>
  Claim C7 on three cases. With a table that holds the entry from point 1 to point 2 only,
  the distance is 10 m one way and computed from the coordinates the other way (here 0 m,
  the points share their coordinates). For the nearly antipodal points, exact arithmetic
  gives half the circumference, and the arithmetic whose additions come out too large gives
  NaN.
\<close>

theorem get_distance_table_or_haversine_witness:
  "distinct (map id_p (points (ex_opt\<lparr>distance_matrix := half_table\<rparr>)))
   \<and> pt 1 2 \<in> set (points (ex_opt\<lparr>distance_matrix := half_table\<rparr>))
   \<and> pt 2 1 \<in> set (points (ex_opt\<lparr>distance_matrix := half_table\<rparr>))
   \<and> get_distance exact (ex_opt\<lparr>distance_matrix := half_table\<rparr>) 1 2 = Fin 10
   \<and> get_distance exact (ex_opt\<lparr>distance_matrix := half_table\<rparr>) 2 1 = Fin 0
   \<and> distinct (map id_p (points far_opt))
   \<and> far_points ! 0 \<in> set (points far_opt) \<and> far_points ! 1 \<in> set (points far_opt)
   \<and> get_distance exact far_opt 1 2 = Fin (6371000 * pi)
   \<and> haversine_a adds_high (- 12) (- 179) 12 1 = 1 + 1 / 2 ^ 52
   \<and> f_sub adds_high 1 (haversine_a adds_high (- 12) (- 179) 12 1) < 0
   \<and> get_distance adds_high far_opt 1 2 = NaN"
proof -
  let ?E = "ex_opt\<lparr>distance_matrix := half_table\<rparr>"
  have pts: "points ?E = [pt 1 2, pt 2 1, pt 3 3, pt 4 1]"
    by (simp add: ex_opt_def ex_points_def)
  have ids: "id_p (pt a w) = a" "lat (pt a w) = 0" "lon (pt a w) = 0" for a w
    by (simp_all add: pt_def Point0_def)
  have d: "distinct (map id_p (points ?E))" by (simp add: pts ids)
  have p: "pt 1 2 \<in> set (points ?E)" and q: "pt 2 1 \<in> set (points ?E)"
    by (simp_all add: pts)
  have m: "distance_matrix ?E = half_table" by simp
  have zero: "great_circle_distance 6371000 0 0 0 0 = 0"
    by (simp add: great_circle_distance_def)
  have there: "get_distance exact ?E 1 2 = Fin 10"
    using get_distance_table_or_haversine [OF d p q, of exact]
    by (simp add: ids m half_table_def to_string_digits)
  have reverse: "get_distance exact ?E 2 1 = Fin 0"
    using get_distance_table_or_haversine [OF d q p, of exact]
    by (simp add: ids m half_table_def to_string_digits zero)
  have fd: "distinct (map id_p (points far_opt))"
    by (simp add: far_opt_def far_points_def)
  have fp: "far_points ! 0 \<in> set (points far_opt)" and fq: "far_points ! 1 \<in> set (points far_opt)"
    by (simp_all add: far_opt_def far_points_def)
  have half: "get_distance exact far_opt 1 2 = Fin (6371000 * pi)"
    using get_distance_table_or_haversine [OF fd fp fq, of exact]
    by (simp add: far_fields far_great_circle)
  have neg: "f_sub adds_high 1 (haversine_a adds_high (- 12) (- 179) 12 1) < 0"
    by (simp add: far_a_high)
  have nan: "get_distance adds_high far_opt 1 2 = NaN"
    using get_distance_table_or_haversine [OF fd fp fq, of adds_high] neg
    by (simp add: far_fields)
  from d p q there reverse fd fp fq half far_a_high(1) neg nan show ?thesis by blast
qed

end
